theory Spec2Isabelle
  imports Complex_Main "HOL-Library.Sublist" "HOL-Library.Word"
begin

section \<open>JavaScript strings\<close>

text \<open>
  A JavaScript string is a sequence of UTF-16 code units. The parser handles characters
  outside Latin-1 (the en dash U+2013, the bullet U+2022), so a code unit is a natural
  number and a string is a list of them. \<open>lit\<close> embeds an ASCII literal.
\<close>

type_synonym cu = nat
type_synonym jsstring = "cu list"

definition lit :: "string \<Rightarrow> jsstring" where
  "lit s = map of_char s"

definition enDash :: cu where
  "enDash = 8211"

text \<open>The character classes of ECMAScript regular expressions: \<open>\d\<close>, \<open>\s\<close>, \<open>\w\<close>.\<close>

definition isDigit :: "cu \<Rightarrow> bool" where
  "isDigit c = (48 \<le> c \<and> c \<le> 57)"

definition isSpace :: "cu \<Rightarrow> bool" where
  "isSpace c = ((9 \<le> c \<and> c \<le> 13) \<or> c = 32 \<or> c = 160 \<or> c = 5760 \<or> (8192 \<le> c \<and> c \<le> 8202)
     \<or> c = 8232 \<or> c = 8233 \<or> c = 8239 \<or> c = 8287 \<or> c = 12288 \<or> c = 65279)"

definition isUpper :: "cu \<Rightarrow> bool" where
  "isUpper c = (65 \<le> c \<and> c \<le> 90)"

definition isLower :: "cu \<Rightarrow> bool" where
  "isLower c = (97 \<le> c \<and> c \<le> 122)"

definition isAlpha :: "cu \<Rightarrow> bool" where
  "isAlpha c = (isUpper c \<or> isLower c)"

definition isWordChar :: "cu \<Rightarrow> bool" where
  "isWordChar c = (isAlpha c \<or> isDigit c \<or> c = 95)"

text \<open>
  Matching under the \<open>i\<close> flag (without the \<open>u\<close> flag) compares canonicalised code
  units. A code unit of value 128 or more is never canonicalised to an ASCII one, so a
  pattern letter matches exactly its two ASCII cases.
\<close>

definition lowerAscii :: "cu \<Rightarrow> cu" where
  "lowerAscii c = (if isUpper c then c + 32 else c)"

definition ciEq :: "cu \<Rightarrow> cu \<Rightarrow> bool" where
  "ciEq a c = (lowerAscii c = lowerAscii a)"

text \<open>\<open>String.prototype.trim\<close> removes white space and line terminators at both ends.\<close>

definition trimStart :: "jsstring \<Rightarrow> jsstring" where
  "trimStart s = dropWhile isSpace s"

definition trimEnd :: "jsstring \<Rightarrow> jsstring" where
  "trimEnd s = rev (dropWhile isSpace (rev s))"

definition trim :: "jsstring \<Rightarrow> jsstring" where
  "trim s = trimEnd (trimStart s)"

fun startsWith :: "jsstring \<Rightarrow> jsstring \<Rightarrow> bool" where
  "startsWith s [] = True"
| "startsWith [] (m # ms) = False"
| "startsWith (x # xs) (m # ms) = (x = m \<and> startsWith xs ms)"

section \<open>Regular expressions\<close>

text \<open>
  The regular expressions of the source are transcribed into this syntax and run by a
  backtracking matcher that follows the ECMAScript semantics: alternatives are tried
  left to right, a greedy quantifier tries the longest repetition first, a lazy one the
  shortest, and an iteration of \<open>*\<close> that consumes nothing is rejected.
\<close>

datatype regex =
    Eps
  | Cls "cu \<Rightarrow> bool"
  | Seq regex regex
  | Alt regex regex
  | Star bool regex
  | Grp nat regex
  | Bol
  | Eol
  | WordB

text \<open>
  A matcher state is the text before the current position (reversed), the text after
  it, and the capture groups recorded so far (latest first).
\<close>

type_synonym captures = "(nat \<times> jsstring) list"
type_synonym mstate = "jsstring \<times> jsstring \<times> captures"

definition wordAt :: "jsstring \<Rightarrow> bool" where
  "wordAt s = (case s of [] \<Rightarrow> False | x # _ \<Rightarrow> isWordChar x)"

definition matched :: "jsstring \<Rightarrow> jsstring \<Rightarrow> jsstring" where
  "matched p p' = rev (take (length p' - length p) p')"

function star_ms :: "bool \<Rightarrow> (mstate \<Rightarrow> mstate list) \<Rightarrow> mstate \<Rightarrow> mstate list" where
  "star_ms g f (p, xs, c) =
     (let more = concat (map (\<lambda>st. if length (fst (snd st)) < length xs
                                    then star_ms g f st else [])
                             (f (p, xs, c)))
      in if g then more @ [(p, xs, c)] else (p, xs, c) # more)"
  by pat_completeness auto
termination
  by (relation "measure (\<lambda>(g, f, p, xs, c). length xs)") auto

text \<open>
  \<open>ms r st\<close> lists every way \<open>r\<close> can match from \<open>st\<close>, in the order the backtracking
  matcher tries them; the match the engine reports is the first one.
\<close>

fun ms :: "regex \<Rightarrow> mstate \<Rightarrow> mstate list" where
  "ms Eps st = [st]"
| "ms (Cls P) (p, xs, c) =
     (case xs of [] \<Rightarrow> [] | x # xs' \<Rightarrow> if P x then [(x # p, xs', c)] else [])"
| "ms (Seq a b) st = concat (map (ms b) (ms a st))"
| "ms (Alt a b) st = ms a st @ ms b st"
| "ms (Star g a) st = star_ms g (ms a) st"
| "ms (Grp k a) (p, xs, c) =
     map (\<lambda>(p', xs', c'). (p', xs', (k, matched p p') # c')) (ms a (p, xs, c))"
| "ms Bol (p, xs, c) = (if p = [] then [(p, xs, c)] else [])"
| "ms Eol (p, xs, c) = (if xs = [] then [(p, xs, c)] else [])"
| "ms WordB (p, xs, c) = (if wordAt p \<noteq> wordAt xs then [(p, xs, c)] else [])"

text \<open>Derived forms: a literal, \<open>r?\<close>, \<open>r+\<close>, \<open>r{1,3}\<close>, \<open>r{2,}\<close>, and a list of alternatives.\<close>

fun Str :: "(cu \<Rightarrow> cu \<Rightarrow> bool) \<Rightarrow> jsstring \<Rightarrow> regex" where
  "Str eq [] = Eps"
| "Str eq [x] = Cls (eq x)"
| "Str eq (x # y # s) = Seq (Cls (eq x)) (Str eq (y # s))"

definition Opt :: "regex \<Rightarrow> regex" where
  "Opt r = Alt r Eps"

definition Plus :: "regex \<Rightarrow> regex" where
  "Plus r = Seq r (Star True r)"

definition Rep13 :: "regex \<Rightarrow> regex" where
  "Rep13 r = Seq r (Opt (Seq r (Opt r)))"

definition Rep2up :: "regex \<Rightarrow> regex" where
  "Rep2up r = Seq r (Seq r (Star True r))"

fun Alts :: "regex list \<Rightarrow> regex" where
  "Alts [] = Cls (\<lambda>_. False)"
| "Alts [r] = r"
| "Alts (r # q # rs) = Alt r (Alts (q # rs))"

fun Seqs :: "regex list \<Rightarrow> regex" where
  "Seqs [] = Eps"
| "Seqs [r] = r"
| "Seqs (r # q # rs) = Seq r (Seqs (q # rs))"

definition group :: "captures \<Rightarrow> nat \<Rightarrow> jsstring" where
  "group c k = (case map_of c k of None \<Rightarrow> [] | Some s \<Rightarrow> s)"

text \<open>
  \<open>search\<close> is one call of \<open>RegExp.prototype.exec\<close>: the first position, from the
  current one on, at which the expression matches. It returns the reversed text before
  the match and the state after it.
\<close>

fun search :: "regex \<Rightarrow> jsstring \<Rightarrow> jsstring \<Rightarrow> (jsstring \<times> mstate) option" where
  "search r p xs =
     (case ms r (p, xs, []) of
        st # _ \<Rightarrow> Some (p, st)
      | [] \<Rightarrow> (case xs of [] \<Rightarrow> None | x # xs' \<Rightarrow> search r (x # p) xs'))"

definition test :: "regex \<Rightarrow> jsstring \<Rightarrow> bool" where
  "test r s = (search r [] s \<noteq> None)"

text \<open>\<open>s.match(r)\<close> for an expression without the \<open>g\<close> flag: the first match and its groups.\<close>

definition match :: "regex \<Rightarrow> jsstring \<Rightarrow> (jsstring \<times> captures) option" where
  "match r s =
     (case search r [] s of
        None \<Rightarrow> None
      | Some (p, p', xs', c) \<Rightarrow> Some (matched p p', c))"

text \<open>
  \<open>s.replace(r, f)\<close> with the \<open>g\<close> flag: every match, found from left to right without
  overlap, is replaced by what \<open>f\<close> makes of the matched text and its groups. After an
  empty match the search moves on by one code unit.
\<close>

function replaceFrom :: "regex \<Rightarrow> (jsstring \<Rightarrow> captures \<Rightarrow> jsstring) \<Rightarrow> jsstring \<Rightarrow> jsstring \<Rightarrow> jsstring" where
  "replaceFrom r f p xs =
     (case ms r (p, xs, []) of
        (p', xs', c) # _ \<Rightarrow>
          f (matched p p') c @
            (if length xs' < length xs then replaceFrom r f p' xs'
             else (case xs of [] \<Rightarrow> [] | x # t \<Rightarrow> x # replaceFrom r f (x # p) t))
      | [] \<Rightarrow> (case xs of [] \<Rightarrow> [] | x # t \<Rightarrow> x # replaceFrom r f (x # p) t))"
  by pat_completeness auto
termination
  by (relation "measure (\<lambda>(r, f, p, xs). length xs)") auto

definition replaceAll :: "regex \<Rightarrow> (jsstring \<Rightarrow> captures \<Rightarrow> jsstring) \<Rightarrow> jsstring \<Rightarrow> jsstring" where
  "replaceAll r f s = replaceFrom r f [] s"

text \<open>\<open>s.replace(r, f)\<close> without the \<open>g\<close> flag: only the first match is replaced.\<close>

definition replaceFirst :: "regex \<Rightarrow> (jsstring \<Rightarrow> captures \<Rightarrow> jsstring) \<Rightarrow> jsstring \<Rightarrow> jsstring" where
  "replaceFirst r f s =
     (case search r [] s of
        None \<Rightarrow> s
      | Some (p, p', xs', c) \<Rightarrow> rev p @ f (matched p p') c @ xs')"

definition const :: "jsstring \<Rightarrow> jsstring \<Rightarrow> captures \<Rightarrow> jsstring" where
  "const t m c = t"

section \<open>JavaScript values\<close>

text \<open>
  A profile is plain data as JSON carries it. A Number is represented by its rendering
  as a string (what \<open>String(n)\<close> gives): the rendering determines all the parser
  observes of a number, its string conversion and its truth value (\<open>0\<close>, \<open>-0\<close>,
  rendered \<open>0\<close>, and \<open>NaN\<close> are falsy). An object is the list of its fields.
\<close>

datatype jsval =
    JUndefined
  | JNull
  | JBool bool
  | JNum jsstring
  | JStr jsstring
  | JArr "jsval list"
  | JObj "(jsstring \<times> jsval) list"

text \<open>
  The exceptions the parser can raise on plain data. A \<open>TypeError\<close> comes from a property
  read on \<open>null\<close> or \<open>undefined\<close>, from a method call on a value that has no such
  method, or from the conversion to a string of an object that cannot be converted; the
  error records the name of the property or method. A \<open>RangeError\<close> comes from building
  a string longer than the engine allows.
\<close>

datatype error = TypeError string | RangeError string

definition ebind :: "error + 'a \<Rightarrow> ('a \<Rightarrow> error + 'b) \<Rightarrow> error + 'b" where
  "ebind m f = (case m of Inl e \<Rightarrow> Inl e | Inr x \<Rightarrow> f x)"

fun mapE :: "('a \<Rightarrow> error + 'b) \<Rightarrow> 'a list \<Rightarrow> error + 'b list" where
  "mapE f [] = Inr []"
| "mapE f (x # xs) = ebind (f x) (\<lambda>y. ebind (mapE f xs) (\<lambda>ys. Inr (y # ys)))"

fun truthy :: "jsval \<Rightarrow> bool" where
  "truthy JUndefined = False"
| "truthy JNull = False"
| "truthy (JBool b) = b"
| "truthy (JNum n) = (n \<noteq> lit ''0'' \<and> n \<noteq> lit ''NaN'')"
| "truthy (JStr s) = (s \<noteq> [])"
| "truthy (JArr vs) = True"
| "truthy (JObj fs) = True"

text \<open>\<open>a || b\<close>\<close>

definition jor :: "jsval \<Rightarrow> jsval \<Rightarrow> jsval" where
  "jor a b = (if truthy a then a else b)"

fun nullish :: "jsval \<Rightarrow> bool" where
  "nullish JUndefined = True"
| "nullish JNull = True"
| "nullish v = False"

text \<open>
  \<open>field v k\<close> is the value of \<open>v.k\<close> for a \<open>v\<close> that is neither \<open>null\<close> nor \<open>undefined\<close>.
  The names the parser reads are no properties of strings, numbers, booleans or arrays,
  so only an object can have them. \<open>optProp\<close> is \<open>v?.k\<close> and \<open>getProp\<close> is \<open>v.k\<close>.
\<close>

fun field :: "jsval \<Rightarrow> string \<Rightarrow> jsval" where
  "field (JObj fs) k = (case map_of fs (lit k) of None \<Rightarrow> JUndefined | Some v \<Rightarrow> v)"
| "field v k = JUndefined"

definition optProp :: "jsval \<Rightarrow> string \<Rightarrow> jsval" where
  "optProp v k = (if nullish v then JUndefined else field v k)"

definition getProp :: "jsval \<Rightarrow> string \<Rightarrow> error + jsval" where
  "getProp v k = (if nullish v then Inl (TypeError k) else Inr (field v k))"


text \<open>
  The parser is part of a browser extension for Chrome, whose engine (V8, on a 64-bit
  machine) holds at most 536870888 code units in a string (2 to the power 29, less 24).
  Where the parser puts values of the profile together (\<open>join\<close>, a template literal) or
  lengthens a date, a longer result raises a \<open>RangeError\<close>.
\<close>

definition maxStringLength :: nat where
  "maxStringLength = 536870888"

definition limit :: "jsstring \<Rightarrow> error + jsstring" where
  "limit s = (if length s > maxStringLength then Inl (RangeError ''Invalid string length'')
              else Inr s)"

text \<open>
  \<open>join\<close> on the elements of an array, given the outcome of converting each element:
  the loop converts the elements in order and appends them to the result, so it stops
  at the first element that cannot be converted or that makes the result too long.
\<close>

fun joinMore :: "jsstring \<Rightarrow> jsstring \<Rightarrow> (error + jsstring) list \<Rightarrow> error + jsstring" where
  "joinMore sep acc [] = Inr acc"
| "joinMore sep acc (r # rs) =
     ebind r (\<lambda>s. ebind (limit (acc @ sep @ s)) (\<lambda>acc'. joinMore sep acc' rs))"

fun joinRes :: "jsstring \<Rightarrow> (error + jsstring) list \<Rightarrow> error + jsstring" where
  "joinRes sep [] = Inr []"
| "joinRes sep (r # rs) = ebind r (\<lambda>s. ebind (limit s) (\<lambda>acc. joinMore sep acc rs))"

text \<open>
  \<open>String(v)\<close>, also the conversion in a template literal. An array is joined with
  commas, \<open>null\<close> and \<open>undefined\<close> elements counting as empty. An object of plain data
  has the methods of \<open>Object.prototype\<close> unless a field of its own hides them: without a
  field \<open>toString\<close> it is rendered \<open>[object Object]\<close>; with one (a value of plain data is
  no function) neither \<open>toString\<close> nor \<open>valueOf\<close> yields a primitive value, and the
  conversion raises a \<open>TypeError\<close>. Arrays nested so deep that the conversion would
  exhaust the call stack are outside the model.
\<close>

fun toStr :: "jsval \<Rightarrow> error + jsstring" and elemStr :: "jsval \<Rightarrow> error + jsstring" where
  "toStr JUndefined = Inr (lit ''undefined'')"
| "toStr JNull = Inr (lit ''null'')"
| "toStr (JBool b) = Inr (if b then lit ''true'' else lit ''false'')"
| "toStr (JNum n) = Inr n"
| "toStr (JStr s) = Inr s"
| "toStr (JArr vs) = joinRes (lit '','') (map elemStr vs)"
| "toStr (JObj fs) =
     (if map_of fs (lit ''toString'') = None then Inr (lit ''[object Object]'')
      else Inl (TypeError ''toString''))"
| "elemStr v = (if nullish v then Inr [] else toStr v)"

text \<open>\<open>vs.join(sep)\<close> on an array of values.\<close>

definition joinVals :: "jsstring \<Rightarrow> jsval list \<Rightarrow> error + jsstring" where
  "joinVals sep vs = joinRes sep (map elemStr vs)"

text \<open>\<open>v.trim()\<close> on a value known not to be \<open>null\<close> or \<open>undefined\<close>.\<close>

definition callTrim :: "jsval \<Rightarrow> error + jsstring" where
  "callTrim v = (case v of JStr s \<Rightarrow> Inr (trim s) | _ \<Rightarrow> Inl (TypeError ''trim''))"

text \<open>\<open>s.split(c)\<close> with a one-character separator.\<close>

fun splitOn :: "cu \<Rightarrow> jsstring \<Rightarrow> jsstring list" where
  "splitOn c [] = [[]]"
| "splitOn c (x # xs) =
     (if x = c then [] # splitOn c xs
      else (case splitOn c xs of [] \<Rightarrow> [[x]] | w # ws \<Rightarrow> (x # w) # ws))"

section \<open>The profile-only parser\<close>

definition ch :: "char \<Rightarrow> cu" where
  "ch c = of_char c"

definition Chr :: "char \<Rightarrow> regex" where
  "Chr c = Cls (\<lambda>x. x = ch c)"

definition StrI :: "string \<Rightarrow> regex" where
  "StrI s = Str ciEq (lit s)"

definition ws :: regex where
  "ws = Star True (Cls isSpace)"

subsection \<open>formatPhone\<close>

text \<open>\<^verbatim>\<open>/[^\d+]/g\<close> and \<^verbatim>\<open>/^\+(\d{1,3})(\d+)$/\<close>\<close>

definition reNonDigitPlus :: regex where
  "reNonDigitPlus = Cls (\<lambda>c. \<not> (isDigit c \<or> c = ch CHR ''+''))"

definition rePhone :: regex where
  "rePhone = Seqs [Bol, Chr CHR ''+'', Grp 1 (Rep13 (Cls isDigit)), Grp 2 (Plus (Cls isDigit)), Eol]"

definition formatPhone :: "jsval \<Rightarrow> error + jsstring" where
  "formatPhone phone =
     (if \<not> truthy phone then Inr []
      else case phone of
        JStr s \<Rightarrow>
          (let cleaned = replaceAll reNonDigitPlus (const []) s in
           if startsWith cleaned (lit ''+'') then
             (case match rePhone cleaned of
                Some (m, c) \<Rightarrow> Inr (lit ''+'' @ group c 1 @ lit '' '' @ group c 2)
              | None \<Rightarrow> Inr s)
           else Inr s)
      | _ \<Rightarrow> Inl (TypeError ''replace''))"

subsection \<open>cleanLocation\<close>

text \<open>\<^verbatim>\<open>/\b(remote|work from home|wfh|virtual|fully remote)\b/gi\<close>\<close>

definition reRemoteWord :: regex where
  "reRemoteWord =
     Seqs [WordB,
           Grp 1 (Alts [StrI ''remote'', StrI ''work from home'', StrI ''wfh'', StrI ''virtual'',
                        StrI ''fully remote'']),
           WordB]"

text \<open>\<^verbatim>\<open>/\s*[\(\[]?\s*(remote|wfh|virtual)\s*[\)\]]?\s*/gi\<close>\<close>

definition reRemoteParen :: regex where
  "reRemoteParen =
     Seqs [ws, Opt (Cls (\<lambda>c. c = ch CHR ''('' \<or> c = ch CHR ''['')), ws,
           Grp 1 (Alts [StrI ''remote'', StrI ''wfh'', StrI ''virtual'']),
           ws, Opt (Cls (\<lambda>c. c = ch CHR '')'' \<or> c = ch CHR '']'')), ws]"

text \<open>The separator alternation \<^verbatim>\<open>(\||,|\/|\<close>en dash\<^verbatim>\<open>|-)\<close> and the three expressions built on it.\<close>

definition reSep :: regex where
  "reSep = Alts [Chr CHR ''|'', Chr CHR '','', Chr CHR ''/'', Cls (\<lambda>c. c = enDash), Chr CHR ''-'']"

definition reSepPair :: regex where
  "reSepPair = Seqs [ws, Grp 1 reSep, ws, Grp 2 reSep, ws]"

definition reSepEnd :: regex where
  "reSepEnd = Seqs [ws, Grp 1 reSep, ws, Eol]"

definition reSepStart :: regex where
  "reSepStart = Seqs [Bol, ws, Grp 1 reSep, ws]"

text \<open>\<^verbatim>\<open>/\s{2,}/g\<close>\<close>

definition reSpaces2 :: regex where
  "reSpaces2 = Rep2up (Cls isSpace)"

definition cleanLocation :: "jsval \<Rightarrow> error + jsstring" where
  "cleanLocation location =
     (if \<not> truthy location then Inr []
      else case location of
        JStr s \<Rightarrow>
          Inr (trim
            (replaceAll reSpaces2 (const (lit '' ''))
            (replaceAll reSepStart (const [])
            (replaceAll reSepEnd (const [])
            (replaceAll reSepPair (const (lit '' | ''))
            (replaceAll reRemoteParen (const [])
            (replaceAll reRemoteWord (const []) s)))))))
      | _ \<Rightarrow> Inl (TypeError ''replace''))"

subsection \<open>normalizeDates\<close>

definition reHyphen2 :: regex where
  "reHyphen2 = Seq (Chr CHR ''-'') (Chr CHR ''-'')"

definition reHyphen :: regex where
  "reHyphen = Chr CHR ''-''"

definition reDash :: regex where
  "reDash = Seqs [ws, Cls (\<lambda>c. c = enDash), ws]"

text \<open>
  The first two replacements do not lengthen the string; the third can, so its result
  is the one that must fit.
\<close>

definition normalizeDates :: "jsval \<Rightarrow> error + jsstring" where
  "normalizeDates dateStr =
     (if \<not> truthy dateStr then Inr []
      else ebind (toStr dateStr) (\<lambda>s.
        limit (replaceAll reDash (const ([ch CHR '' '', enDash, ch CHR '' '']))
              (replaceAll reHyphen (const [enDash])
              (replaceAll reHyphen2 (const [enDash]) s)))))"

subsection \<open>parseProfileExperience\<close>

text \<open>
  The marker glyphs of \<^verbatim>\<open>/^[-\<close>...\<^verbatim>\<open>]\s*/\<close>: hyphen, U+2022, asterisk, U+25AA, U+25B8, U+25BA.
\<close>

definition isMarker :: "cu \<Rightarrow> bool" where
  "isMarker c = (c = ch CHR ''-'' \<or> c = 8226 \<or> c = ch CHR ''*'' \<or> c = 9642 \<or> c = 9656 \<or> c = 9658)"

definition reBullet :: regex where
  "reBullet = Seqs [Bol, Cls isMarker, ws]"

text \<open>The function mapped over the bullets: \<^verbatim>\<open>bullet => bullet.replace(/^[...]\s*/, '').trim()\<close>.\<close>

definition cleanBullet :: "jsval \<Rightarrow> error + jsstring" where
  "cleanBullet bullet =
     (case bullet of
        JStr s \<Rightarrow> Inr (trim (replaceFirst reBullet (const []) s))
      | _ \<Rightarrow> Inl (TypeError ''replace''))"

record job =
  company :: jsstring
  title :: jsstring
  titleLine :: jsstring
  dates :: jsstring
  jobLocation :: jsval
  bullets :: "jsstring list"

text \<open>
  The bullets as the array that \<open>map\<close> is called on: a string is split into its
  non-blank lines, an array is taken as it is, and no other value has a \<open>map\<close> method.
\<close>

definition bulletArray :: "jsval \<Rightarrow> error + jsval list" where
  "bulletArray b =
     (case b of
        JStr s \<Rightarrow> Inr (map JStr (filter (\<lambda>l. trim l \<noteq> []) (splitOn 10 s)))
      | JArr vs \<Rightarrow> Inr vs
      | _ \<Rightarrow> Inl (TypeError ''map''))"

text \<open>The body of the \<open>forEach\<close> callback, for one entry of the work history.\<close>

definition parseJob :: "jsval \<Rightarrow> error + job" where
  "parseJob j =
     ebind (getProp j ''company'') (\<lambda>company0.
     ebind (callTrim (jor (jor company0 (field j ''organization'')) (JStr []))) (\<lambda>company1.
     ebind (callTrim (jor (jor (jor (field j ''title'') (field j ''position'')) (field j ''role''))
                          (JStr []))) (\<lambda>title1.
     let dates0 = jor (jor (field j ''dates'') (field j ''duration'')) (JStr [])
     in
     ebind (if \<not> truthy dates0 \<and> truthy (jor (field j ''startDate'') (field j ''endDate''))
            then (let start = jor (field j ''startDate'') (JStr []);
                      end = jor (field j ''endDate'') (JStr (lit ''Present''))
                  in if truthy start
                     then ebind (toStr start) (\<lambda>s.
                          ebind (toStr end) (\<lambda>e.
                          ebind (limit (s @ lit '' - '' @ e)) (\<lambda>t. Inr (JStr t))))
                     else Inr end)
            else Inr dates0) (\<lambda>dates1.
     ebind (normalizeDates dates1) (\<lambda>dates2.
     let location1 = jor (field j ''location'') (JStr []);
         bullets0 = jor (jor (jor (field j ''bullets'') (field j ''achievements''))
                             (field j ''responsibilities'')) (JArr [])
     in
     ebind (bulletArray bullets0) (\<lambda>bullets1.
     ebind (mapE cleanBullet bullets1) (\<lambda>cleaned.
     ebind (if dates2 \<noteq> [] then limit (title1 @ lit '' | '' @ dates2) else Inr title1)
       (\<lambda>titleLine1.
     Inr \<lparr> company = company1, title = title1, titleLine = titleLine1,
           dates = dates2, jobLocation = location1,
           bullets = filter (\<lambda>b. length b > 0) cleaned \<rparr>))))))))"

definition parseProfileExperience :: "jsval list \<Rightarrow> error + job list" where
  "parseProfileExperience workExperience = mapE parseJob workExperience"

subsection \<open>The fields of the document\<close>

record contactInfo =
  name :: jsstring
  email :: jsval
  phone :: jsstring
  location :: jsstring
  linkedin :: jsval
  github :: jsval
  portfolio :: jsval

definition extractContactInfo :: "jsval \<Rightarrow> error + contactInfo" where
  "extractContactInfo profile =
     (let firstName = jor (jor (optProp profile ''firstName'') (optProp profile ''first_name'')) (JStr []);
          lastName = jor (jor (optProp profile ''lastName'') (optProp profile ''last_name'')) (JStr [])
      in
      ebind (toStr firstName) (\<lambda>first.
      ebind (toStr lastName) (\<lambda>last.
      ebind (limit (first @ lit '' '' @ last)) (\<lambda>name0.
      ebind (formatPhone (jor (optProp profile ''phone'') (JStr []))) (\<lambda>phone1.
      ebind (cleanLocation (jor (jor (optProp profile ''city'') (optProp profile ''location''))
                                (JStr []))) (\<lambda>location1.
      Inr \<lparr> name = trim name0,
            email = jor (optProp profile ''email'') (JStr []),
            phone = phone1,
            location = location1,
            linkedin = jor (optProp profile ''linkedin'') (JStr []),
            github = jor (optProp profile ''github'') (JStr []),
            portfolio = jor (optProp profile ''portfolio'') (JStr []) \<rparr>))))))"

definition extractSummary :: "jsval \<Rightarrow> jsval" where
  "extractSummary profile =
     jor (jor (jor (optProp profile ''summary'') (optProp profile ''professionalSummary''))
              (optProp profile ''profile'')) (JStr [])"

record eduEntry =
  institution :: jsval
  degree :: jsval
  eduDates :: jsval
  gpa :: jsval

definition parseEdu :: "jsval \<Rightarrow> error + eduEntry" where
  "parseEdu edu =
     ebind (getProp edu ''institution'') (\<lambda>institution0.
     Inr \<lparr> institution = jor (jor (jor institution0 (field edu ''school'')) (field edu ''university''))
                              (JStr []),
           degree = jor (field edu ''degree'') (JStr []),
           eduDates = jor (jor (field edu ''dates'') (field edu ''graduationDate'')) (JStr []),
           gpa = jor (field edu ''gpa'') (JStr []) \<rparr>)"

definition extractEducation :: "jsval \<Rightarrow> error + eduEntry list" where
  "extractEducation profile =
     (case jor (optProp profile ''education'') (JArr []) of
        JArr es \<Rightarrow> mapE parseEdu es
      | _ \<Rightarrow> Inr [])"

definition extractSkills :: "jsval \<Rightarrow> error + jsstring" where
  "extractSkills profile =
     (case jor (optProp profile ''skills'') (JArr []) of
        JArr vs \<Rightarrow> joinVals (lit '', '') vs
      | JStr s \<Rightarrow> Inr s
      | _ \<Rightarrow> Inr [])"

definition extractCertifications :: "jsval \<Rightarrow> error + jsstring" where
  "extractCertifications profile =
     (case jor (optProp profile ''certifications'') (JArr []) of
        JArr vs \<Rightarrow> joinVals (lit '', '') vs
      | JStr s \<Rightarrow> Inr s
      | _ \<Rightarrow> Inr [])"

subsection \<open>extractTechnicalExperience\<close>

record resume =
  contact :: contactInfo
  summary :: jsval
  experience :: "job list"
  education :: "eduEntry list"
  skills :: jsstring
  certifications :: jsstring

text \<open>
  The value the work history is read from: \<^verbatim>\<open>profileData?.workExperience || profileData?.work_experience || []\<close>.
\<close>

definition workExperienceOf :: "jsval \<Rightarrow> jsval" where
  "workExperienceOf profileData =
     jor (jor (optProp profileData ''workExperience'') (optProp profileData ''work_experience''))
         (JArr [])"

definition extractTechnicalExperience :: "jsval \<Rightarrow> error + resume" where
  "extractTechnicalExperience profileData =
     ebind (extractContactInfo profileData) (\<lambda>contact1.
     let summary1 = extractSummary profileData;
         workExperience = workExperienceOf profileData
     in
     ebind (case workExperience of
              JArr js \<Rightarrow> if length js > 0 then parseProfileExperience js else Inr []
            | _ \<Rightarrow> Inr []) (\<lambda>experience1.
     ebind (extractEducation profileData) (\<lambda>education1.
     ebind (extractSkills profileData) (\<lambda>skills1.
     ebind (extractCertifications profileData) (\<lambda>certifications1.
     Inr \<lparr> contact = contact1, summary = summary1, experience = experience1,
           education = education1, skills = skills1,
           certifications = certifications1 \<rparr>)))))"

subsection \<open>parseFromProfilePage\<close>

record metadata =
  parsedAt :: jsstring
  parser :: jsstring
  metaSource :: jsstring
  atsVersion :: jsstring

text \<open>The enhanced document is the document with one more field, \<open>metadata\<close>.\<close>

record enhanced = resume +
  metadata :: metadata

text \<open>
  What the function reads from its environment: the two readings of
  \<open>performance.now()\<close> and the rendering of the current date.
\<close>

record env =
  startTime :: real
  endTime :: real
  isoNow :: jsstring

definition enhanceForATS :: "env \<Rightarrow> resume \<Rightarrow> enhanced" where
  "enhanceForATS e d =
     resume.extend d (enhanced.fields
       \<lparr> parsedAt = isoNow e, parser = lit ''ProfileOnlyParser'',
         metaSource = lit ''profile_page_only'', atsVersion = lit ''1.0.0'' \<rparr>)"

text \<open>
  The two objects the function returns: \<open>{success: true, data, timing, source}\<close> and
  \<open>{success: false, error, data: null}\<close>; a key an object does not have is \<open>None\<close>.
  The \<open>error\<close> field stands for \<open>error.message\<close>.
\<close>

record parseResult =
  success :: bool
  data :: "enhanced option"
  timing :: "real option"
  source :: "jsstring option"
  error :: "error option"

text \<open>
  \<open>Inl\<close> is an exception that leaves the function (a rejected promise). The body of
  the \<open>try\<close> is the extraction followed by the enhancement; \<open>catch\<close> turns its exception
  into the failure object.
\<close>

definition parseFromProfilePage :: "env \<Rightarrow> jsval \<Rightarrow> error + parseResult" where
  "parseFromProfilePage e profileData =
     (case ebind (extractTechnicalExperience profileData) (\<lambda>parsedData.
             Inr (enhanceForATS e parsedData)) of
        Inr enhancedData \<Rightarrow>
          Inr \<lparr> success = True, data = Some enhancedData,
                timing = Some (endTime e - startTime e),
                source = Some (lit ''profile_page_only''), error = None \<rparr>
      | Inl err \<Rightarrow>
          Inr \<lparr> success = False, data = None, timing = None, source = None,
                error = Some err \<rparr>)"

section \<open>The CV upload handler\<close>

subsection \<open>getWorkExperienceFocusedText\<close>

text \<open>
  \<open>s.indexOf(m, from)\<close>: the least index at or after \<open>from\<close> (clamped to the length)
  at which \<open>m\<close> occurs, \<open>None\<close> for the result \<open>-1\<close>.
\<close>

fun findAt :: "jsstring \<Rightarrow> jsstring \<Rightarrow> nat \<Rightarrow> nat option" where
  "findAt m [] i = (if m = [] then Some i else None)"
| "findAt m (x # xs) i = (if startsWith (x # xs) m then Some i else findAt m xs (Suc i))"

definition indexOf :: "jsstring \<Rightarrow> jsstring \<Rightarrow> nat \<Rightarrow> nat option" where
  "indexOf s m from = (let k = min from (length s) in findAt m (drop k s) k)"

text \<open>\<open>s.slice(a, b)\<close> for indices that are not negative.\<close>

definition slice :: "jsstring \<Rightarrow> nat \<Rightarrow> nat \<Rightarrow> jsstring" where
  "slice s a b = take (min b (length s) - min a (length s)) (drop (min a (length s)) s)"

definition startMarkers :: "jsstring list" where
  "startMarkers = [lit ''WORK EXPERIENCE'', lit ''PROFESSIONAL EXPERIENCE'', lit ''EXPERIENCE'',
                   lit ''EMPLOYMENT HISTORY'']"

definition endMarkers :: "jsstring list" where
  "endMarkers = [lit ''EDUCATION'', lit ''CERTIFICATIONS'', lit ''SKILLS'', lit ''PROJECTS'',
                 lit ''LANGUAGES'', lit ''ACHIEVEMENTS'', lit ''INTERESTS'']"

text \<open>The first loop: the first marker of the list that occurs decides \<open>start\<close>.\<close>

fun findStart :: "jsstring \<Rightarrow> jsstring list \<Rightarrow> nat option" where
  "findStart upper [] = None"
| "findStart upper (m # rest) =
     (case indexOf upper m 0 of Some idx \<Rightarrow> Some idx | None \<Rightarrow> findStart upper rest)"

text \<open>The second loop: \<open>end\<close> goes down to the least index found from \<open>start + 20\<close> on.\<close>

fun findEnd :: "jsstring \<Rightarrow> nat \<Rightarrow> jsstring list \<Rightarrow> nat \<Rightarrow> nat" where
  "findEnd upper start [] e = e"
| "findEnd upper start (m # rest) e =
     (case indexOf upper m (start + 20) of
        Some idx \<Rightarrow> findEnd upper start rest (if idx < e then idx else e)
      | None \<Rightarrow> findEnd upper start rest e)"

text \<open>
  \<open>String.prototype.toUpperCase\<close> maps the whole of Unicode and can change the length
  of a string; the function takes it as the parameter \<open>toUpperCase\<close>. On ASCII text it
  is \<open>upperAscii\<close>.
\<close>

definition upperAscii :: "jsstring \<Rightarrow> jsstring" where
  "upperAscii s = map (\<lambda>c. if isLower c then c - 32 else c) s"

definition getWorkExperienceFocusedText :: "(jsstring \<Rightarrow> jsstring) \<Rightarrow> jsstring \<Rightarrow> jsstring" where
  "getWorkExperienceFocusedText toUpperCase fullText =
     (let text = fullText;
          upper = toUpperCase text
      in case findStart upper startMarkers of
           None \<Rightarrow> slice text 0 20000
         | Some start \<Rightarrow>
             (let end = findEnd upper start endMarkers (length upper);
                  section = slice text start end
              in if length section > 25000 then slice section 0 25000 else section))"

subsection \<open>isTextReadable\<close>

text \<open>\<^verbatim>\<open>/[^a-zA-Z0-9\s.,;:!?@#$%&*()\-]/g\<close>\<close>

definition reUnreadable :: regex where
  "reUnreadable =
     Cls (\<lambda>c. \<not> (isAlpha c \<or> isDigit c \<or> isSpace c \<or> c \<in> set (lit ''.,;:!?@#$%&*()-'')))"

text \<open>\<^verbatim>\<open>/\b(experience|education|skills|work|company|university|degree|manager|developer|engineer|analyst)\b/i\<close>\<close>

definition reCommonWords :: regex where
  "reCommonWords =
     Seqs [WordB,
           Grp 1 (Alts [StrI ''experience'', StrI ''education'', StrI ''skills'', StrI ''work'',
                        StrI ''company'', StrI ''university'', StrI ''degree'', StrI ''manager'',
                        StrI ''developer'', StrI ''engineer'', StrI ''analyst'']),
           WordB]"

text \<open>
  The ratio test \<open>readable.length / text.length > 0.4\<close> is written over the integers:
  for lengths a string can have, the rounded quotient exceeds the double nearest to 0.4
  exactly when \<open>5 * readable.length > 2 * text.length\<close>.
\<close>

definition isTextReadable :: "jsstring \<Rightarrow> bool" where
  "isTextReadable text =
     (if text = [] \<or> length text < 100 then False
      else let readable = replaceAll reUnreadable (const []) text
           in 5 * length readable > 2 * length text \<and> test reCommonWords text)"

subsection \<open>extractTextFromPDF\<close>





text \<open>
  The loop \<^verbatim>\<open>while ((m = re.exec(s)) !== null)\<close> over an expression with the \<open>g\<close> flag
  collects the groups of the successive matches. After an empty match \<open>lastIndex\<close> does
  not move and the loop never ends: the result is then \<open>None\<close>. (A match that is not
  empty always leaves less text to search; the second test serves the termination proof.)
\<close>

function execFrom :: "regex \<Rightarrow> jsstring \<Rightarrow> jsstring \<Rightarrow> captures list option" where
  "execFrom r p xs =
     (case search r p xs of
        None \<Rightarrow> Some []
      | Some (q, p', xs', c) \<Rightarrow>
          if matched q p' \<noteq> [] \<and> length xs' < length xs
          then (case execFrom r p' xs' of None \<Rightarrow> None | Some cs \<Rightarrow> Some (c # cs))
          else None)"
  by pat_completeness auto
termination
  by (relation "measure (\<lambda>(r, p, xs). length xs)") auto



text \<open>
  \<open>s.split(r)\<close> for an expression without groups: the text is cut at every match that
  is not empty at the start of a piece; a piece runs to the next match.
\<close>

function splitFrom :: "regex \<Rightarrow> jsstring \<Rightarrow> jsstring \<Rightarrow> jsstring \<Rightarrow> jsstring list" where
  "splitFrom r cur p xs =
     (case xs of
        [] \<Rightarrow> [rev cur]
      | x # t \<Rightarrow>
          (case ms r (p, xs, []) of
             [] \<Rightarrow> splitFrom r (x # cur) (x # p) t
           | (p', xs', c) # _ \<Rightarrow>
               if length xs' < length xs then rev cur # splitFrom r [] p' xs'
               else if cur \<noteq> [] then rev cur # splitFrom r [] p xs
               else splitFrom r (x # cur) (x # p) t))"
  by pat_completeness auto
termination
  by (relation "measure (\<lambda>(r, cur, p, xs). 2 * length xs + (if cur = [] then 0 else 1))") auto


definition StrS :: "string \<Rightarrow> regex" where
  "StrS s = Str (\<lambda>a c. c = a) (lit s)"

definition anyChar :: regex where
  "anyChar = Cls (\<lambda>c. True)"









text \<open>
  \<^verbatim>\<open>/BT\s*([\s\S]*?)\s*ET/g\<close>, \<^verbatim>\<open>/\(([^)]*)\)\s*Tj/g\<close>, \<^verbatim>\<open>/\[([\s\S]*?)\]\s*TJ/gi\<close>,
  \<^verbatim>\<open>/\(([^)]*)\)/g\<close> and \<^verbatim>\<open>/stream\s*([\s\S]*?)\s*endstream/g\<close>
\<close>

definition reTextBlock :: regex where
  "reTextBlock = Seqs [StrS ''BT'', ws, Grp 1 (Star False anyChar), ws, StrS ''ET'']"
















section \<open>Vocabulary of the properties\<close>

text \<open>\<open>occursAt s m k\<close>: the string \<open>m\<close> occurs in \<open>s\<close> at index \<open>k\<close>.\<close>

definition occursAt :: "jsstring \<Rightarrow> jsstring \<Rightarrow> nat \<Rightarrow> bool" where
  "occursAt s m k = (k + length m \<le> length s \<and> take (length m) (drop k s) = m)"











text \<open>A bullet that begins with white space followed by a marker glyph.\<close>

definition blankBeforeMarker :: "jsstring \<Rightarrow> bool" where
  "blankBeforeMarker s =
     (case s of
        [] \<Rightarrow> False
      | c # t \<Rightarrow> isSpace c \<and> (case dropWhile isSpace t of [] \<Rightarrow> False | d # u \<Rightarrow> isMarker d))"

text \<open>The three replacements of \<open>normalizeDates\<close>, on a string.\<close>

definition dashForm :: "jsstring \<Rightarrow> jsstring" where
  "dashForm s =
     replaceAll reDash (const ([ch CHR '' '', enDash, ch CHR '' '']))
       (replaceAll reHyphen (const [enDash])
         (replaceAll reHyphen2 (const [enDash]) s))"


text \<open>
  A string in which every en dash stands between two spaces: it is made of characters
  other than the en dash and of the group space, en dash, space.
\<close>

inductive spaced :: "jsstring \<Rightarrow> bool" where
  nil: "spaced []"
| chr: "c \<noteq> enDash \<Longrightarrow> spaced xs \<Longrightarrow> spaced (c # xs)"
| dash: "spaced xs \<Longrightarrow> spaced (ch CHR '' '' # enDash # ch CHR '' '' # xs)"

subsection \<open>Measures and descriptions used for the PDF extractor\<close>


definition ext :: "nat \<Rightarrow> mstate \<Rightarrow> mstate \<Rightarrow> bool" where
  "ext n s s' = (\<exists>m. fst (snd s) = m @ fst (snd s') \<and> fst s' = rev m @ fst s \<and> n \<le> length m)"






definition tailET :: regex where
  "tailET = Seq (Star True (Cls isSpace))
              (Seq (Cls (\<lambda>c. c = ch CHR ''E'')) (Cls (\<lambda>c. c = ch CHR ''T'')))"




section \<open>Properties\<close>

lemmas charEv = lit_def ch_def isDigit_def isSpace_def isUpper_def isLower_def isAlpha_def
  isWordChar_def lowerAscii_def ciEq_def enDash_def isMarker_def

lemmas reEv = wordAt_def matched_def Opt_def Plus_def Rep13_def Rep2up_def group_def Chr_def
  StrI_def ws_def test_def match_def replaceAll_def replaceFirst_def const_def trim_def
  trimStart_def trimEnd_def

lemmas valEv = jor_def optProp_def getProp_def ebind_def callTrim_def joinVals_def limit_def

lemmas locEv = cleanLocation_def reRemoteWord_def reRemoteParen_def reSepPair_def reSepEnd_def
  reSepStart_def reSpaces2_def reSep_def

subsection \<open>The matcher on a repeated character class\<close>

lemma star_ms_unfold:
  "star_ms g f (p, xs, c) =
     (let more = concat (map (\<lambda>st. if length (fst (snd st)) < length xs
                                    then star_ms g f st else [])
                             (f (p, xs, c)))
      in if g then more @ [(p, xs, c)] else (p, xs, c) # more)"
  by simp

lemma star_cls_greedy:
  "star_ms True (ms (Cls P)) (p, xs, c) =
     map (\<lambda>k. (rev (take k xs) @ p, drop k xs, c)) (rev [0..<Suc (length (takeWhile P xs))])"
proof (induction xs arbitrary: p)
  case Nil
  show ?case by (simp del: star_ms.simps add: star_ms_unfold)
next
  case (Cons x t)
  show ?case
  proof (cases "P x")
    case False
    then show ?thesis by (simp del: star_ms.simps add: star_ms_unfold)
  next
    case True
    have "rev [0..<Suc (Suc (length (takeWhile P t)))]
          = map Suc (rev [0..<Suc (length (takeWhile P t))]) @ [0]"
      by (metis map_Suc_upt rev.simps(2) rev_map upt_conv_Cons zero_less_Suc)
    with True Cons[of "x # p"] show ?thesis
      by (simp del: star_ms.simps upt_Suc add: star_ms_unfold[of True _ p "x # t"] o_def)
  qed
qed


lemma matched_self [simp]: "matched p p = []"
  by (simp add: matched_def)

lemma matched_append [simp]: "matched p (q @ p) = rev q"
  by (simp add: matched_def)

lemma matched_append_Cons [simp]: "matched p (q @ x # p) = x # rev q"
  using matched_append[of p "q @ [x]"] by simp

lemma matched_Cons [simp]: "matched p (x # p) = [x]"
  using matched_append[of p "[x]"] by simp

lemma matched_Cons2 [simp]: "matched p (y # x # p) = [x, y]"
  using matched_append[of p "[y, x]"] by simp

lemma matched_Cons3 [simp]: "matched p (z # y # x # p) = [x, y, z]"
  using matched_append[of p "[z, y, x]"] by simp

lemma take_len_takeWhile [simp]: "take (length (takeWhile P xs)) xs = takeWhile P xs"
  by (induction xs) auto

lemma drop_len_takeWhile [simp]: "drop (length (takeWhile P xs)) xs = dropWhile P xs"
  by (induction xs) auto

text \<open>An expression anchored at the start matches nowhere else.\<close>

lemma search_Bol_later: "p \<noteq> [] \<Longrightarrow> search (Seq Bol r) p xs = None"
  by (induction xs arbitrary: p) auto

lemma trim_dropWhile [simp]: "trim (dropWhile isSpace t) = trim t"
  by (simp add: trim_def trimStart_def)

lemma ws_first:
  "ms ws (p, xs, c) = (rev (takeWhile isSpace xs) @ p, dropWhile isSpace xs, c) #
     map (\<lambda>k. (rev (take k xs) @ p, drop k xs, c)) (rev [0..<length (takeWhile isSpace xs)])"
  by (simp add: ws_def star_cls_greedy del: star_ms.simps)

subsection \<open>Bullet cleaning\<close>

text \<open>
  What the code computes on every bullet: the expression is anchored at the start, so a
  marker is removed when it is the first character, with the white space after it, and
  \<open>trim\<close> then removes the white space at both ends of what is left.
\<close>

lemma cleanBullet_eq:
  "cleanBullet (JStr s) =
     Inr (trim (case s of [] \<Rightarrow> [] | c # t \<Rightarrow> if isMarker c then t else s))"
proof (cases s)
  case Nil
  then show ?thesis
    by (simp add: cleanBullet_def replaceFirst_def reBullet_def trim_def trimStart_def trimEnd_def)
next
  case (Cons c t)
  show ?thesis
  proof (cases "isMarker c")
    case True
    with Cons show ?thesis
      by (simp add: cleanBullet_def replaceFirst_def reBullet_def ws_first const_def)
  next
    case False
    have "search reBullet [] (c # t) = None"
      using False search_Bol_later[of "[c]" "Seq (Cls isMarker) ws" t]
      by (subst search.simps) (simp add: reBullet_def del: search.simps)
    with Cons False show ?thesis
      by (simp add: cleanBullet_def replaceFirst_def del: search.simps)
  qed
qed

lemma marker_not_space: "isMarker c \<Longrightarrow> \<not> isSpace c"
  by (auto simp: isMarker_def isSpace_def ch_def)

text \<open>
  Claim C7, as the code has it by design. Take a bullet that does not begin with white
  space followed by a marker glyph. Cleaning removes the white space at both ends of the
  bullet, the trailing white space too, and one leading marker glyph with the white
  space around it; every other character is kept, in order.
\<close>

theorem cleanBullet_amended:
  assumes "\<not> blankBeforeMarker s"
  shows "cleanBullet (JStr s) =
           Inr (trim (case trimStart s of [] \<Rightarrow> [] | c # t \<Rightarrow> if isMarker c then t else c # t))"
proof (cases s)
  case Nil
  then show ?thesis by (simp add: cleanBullet_eq trimStart_def)
next
  case (Cons c t)
  show ?thesis
  proof (cases "isSpace c")
    case False
    with Cons show ?thesis by (simp add: cleanBullet_eq trimStart_def)
  next
    case True
    then have nm: "\<not> isMarker c" using marker_not_space by blast
    from True Cons have ts: "trimStart s = dropWhile isSpace t" by (simp add: trimStart_def)
    from nm Cons have l: "cleanBullet (JStr s) = Inr (trim (c # t))" by (simp add: cleanBullet_eq)
    from True have tr: "trim (c # t) = trim (dropWhile isSpace t)"
      using trim_dropWhile[of "c # t"] by simp
    show ?thesis
    proof (cases "dropWhile isSpace t")
      case Nil
      with l tr ts show ?thesis by simp
    next
      case c2: (Cons d u)
      with assms Cons True have "\<not> isMarker d" by (simp add: blankBeforeMarker_def)
      with l tr ts c2 show ?thesis by simp
    qed
  qed
qed

theorem cleanBullet_amended_witness:
  "cleanBullet (JStr (lit ''* foo bar'')) = Inr (lit ''foo bar'')"
  using cleanBullet_amended[of "lit ''* foo bar''"]
  by (simp add: blankBeforeMarker_def charEv reEv)

text \<open>
  The claim as the specification words it fails on trailing white space, which \<open>trim\<close>
  removes with the rest: the characters after the marker and its white space are not all
  kept.
\<close>

theorem cleanBullet_counterexample:
  "cleanBullet (JStr (lit ''- foo '')) = Inr (lit ''foo'')
   \<and> cleanBullet (JStr (lit ''- foo '')) \<noteq> Inr (lit ''foo '')"
  by (simp add: cleanBullet_def reBullet_def charEv reEv)

text \<open>
  On a bullet that begins with white space followed by a marker the marker stays, since
  \<open>trim\<close> runs after the anchored replacement and not before it.
\<close>

lemma cleanBullet_blank_marker:
  "cleanBullet (JStr (lit '' - foo'')) = Inr (lit ''- foo'')"
  by (simp add: cleanBullet_def reBullet_def charEv reEv)

subsection \<open>Location cleaning\<close>

text \<open>
  Claim C3, as the code has it: \<open>Remote (USA)\<close> becomes \<open>(USA)\<close>, with its
  parentheses, and \<open>New York, Remote\<close> becomes \<open>New York\<close>.
\<close>

theorem cleanLocation_examples:
  "cleanLocation (JStr (lit ''Remote (USA)'')) = Inr (lit ''(USA)'')
   \<and> cleanLocation (JStr (lit ''New York, Remote'')) = Inr (lit ''New York'')"
  by (simp add: locEv charEv reEv)

text \<open>The result \<open>USA\<close> that the specification gives for the first input is not the code's.\<close>

theorem cleanLocation_counterexample:
  "cleanLocation (JStr (lit ''Remote (USA)'')) \<noteq> Inr (lit ''USA'')"
  by (simp add: locEv charEv reEv)

subsection \<open>The readability heuristic\<close>

text \<open>
  Claim C8. A string of fewer than 100 characters is classified as unreadable, whatever
  it contains.
\<close>

theorem isTextReadable_short:
  "length text < 100 \<Longrightarrow> isTextReadable text = False"
  by (simp add: isTextReadable_def)

theorem isTextReadable_short_witness:
  "length (lit ''work experience, education and skills'') < 100
   \<and> isTextReadable (lit ''work experience, education and skills'') = False"
  using isTextReadable_short [of "lit ''work experience, education and skills''"]
  by (simp add: lit_def)

subsection \<open>The focused text\<close>

lemma startsWith_iff: "startsWith xs m = (length m \<le> length xs \<and> take (length m) xs = m)"
  by (induction xs m rule: startsWith.induct) auto

lemma startsWith_drop: "k \<le> length s \<Longrightarrow> startsWith (drop k s) m = occursAt s m k"
proof -
  assume "k \<le> length s"
  then have "(length m \<le> length s - k) = (k + length m \<le> length s)" by arith
  then show ?thesis by (simp add: startsWith_iff occursAt_def)
qed


lemma findAt_None:
  "findAt m xs i = None \<Longrightarrow> j \<le> length xs \<Longrightarrow> \<not> startsWith (drop j xs) m"
proof (induction xs arbitrary: i j)
  case Nil
  then show ?case by (cases m) (auto split: if_splits)
next
  case (Cons x xs)
  then show ?case by (cases j) (auto split: if_splits)
qed

lemma findAt_Some:
  "findAt m xs i = Some k \<Longrightarrow>
     i \<le> k \<and> k - i \<le> length xs \<and> startsWith (drop (k - i) xs) m
     \<and> (\<forall>j < k - i. \<not> startsWith (drop j xs) m)"
proof (induction xs arbitrary: i)
  case Nil
  then show ?case by (auto split: if_splits)
next
  case (Cons x xs)
  show ?case
  proof (cases "startsWith (x # xs) m")
    case True
    with Cons.prems show ?thesis by simp
  next
    case False
    with Cons.prems have f: "findAt m xs (Suc i) = Some k" by simp
    from Cons.IH[OF f] have ih: "Suc i \<le> k" "k - Suc i \<le> length xs"
      "startsWith (drop (k - Suc i) xs) m" "\<forall>j < k - Suc i. \<not> startsWith (drop j xs) m"
      by auto
    have ki: "k - i = Suc (k - Suc i)" using ih(1) by simp
    have "\<forall>j < k - i. \<not> startsWith (drop j (x # xs)) m"
    proof (intro allI impI)
      fix j assume "j < k - i"
      then show "\<not> startsWith (drop j (x # xs)) m"
        using False ih(4) ki by (cases j) auto
    qed
    with ih ki show ?thesis by simp
  qed
qed


lemma indexOf_None:
  "indexOf s m from = None \<Longrightarrow> from \<le> k \<Longrightarrow> \<not> occursAt s m k"
proof
  assume n: "indexOf s m from = None" and fk: "from \<le> k" and o: "occursAt s m k"
  let ?f = "min from (length s)"
  from o have kl: "k \<le> length s" by (simp add: occursAt_def)
  with fk have fl: "?f = from" by simp
  from n have "findAt m (drop from s) from = None" by (simp add: indexOf_def Let_def fl)
  from findAt_None[OF this, of "k - from"] kl fk
  have "\<not> startsWith (drop (k - from) (drop from s)) m" by simp
  with fk kl o show False by (simp add: startsWith_drop)
qed

lemma indexOf0_None: "indexOf s m 0 = None \<Longrightarrow> \<not> occursAt s m k"
  using indexOf_None[of s m 0 k] by simp


lemma indexOf_Some:
  assumes "indexOf s m from = Some k"
  shows "min from (length s) \<le> k" and "occursAt s m k"
    and "\<And>j. from \<le> j \<Longrightarrow> j < k \<Longrightarrow> \<not> occursAt s m j"
proof -
  let ?f = "min from (length s)"
  from assms have f: "findAt m (drop ?f s) ?f = Some k" by (simp add: indexOf_def Let_def)
  from findAt_Some[OF f] have a: "?f \<le> k" "k - ?f \<le> length (drop ?f s)"
    "startsWith (drop (k - ?f) (drop ?f s)) m"
    "\<forall>j < k - ?f. \<not> startsWith (drop j (drop ?f s)) m" by auto
  show "?f \<le> k" by fact
  from a(2) have kl: "k \<le> length s" by simp
  from a(1,3) kl show o: "occursAt s m k" by (simp add: startsWith_drop)
  fix j assume j: "from \<le> j" "j < k"
  with kl have fl: "?f = from" by simp
  from j have "j - from < k - from" by simp
  with a(4) fl have "\<not> startsWith (drop (j - from) (drop from s)) m" by metis
  with j kl show "\<not> occursAt s m j" by (simp add: startsWith_drop)
qed


lemma findStart_None:
  "(\<forall>m \<in> set l. \<forall>k. \<not> occursAt upper m k) \<Longrightarrow> findStart upper l = None"
proof (induction l)
  case Nil
  show ?case by simp
next
  case (Cons m l)
  have "indexOf upper m 0 = None"
  proof (cases "indexOf upper m 0")
    case (Some k)
    from indexOf_Some(2)[OF Some] Cons.prems show ?thesis by simp
  qed simp
  with Cons show ?case by simp
qed

lemma findStart_None_iff:
  "findStart upper l = None \<Longrightarrow> m \<in> set l \<Longrightarrow> \<not> occursAt upper m k"
  by (induction l) (auto split: option.splits dest: indexOf0_None)



lemma slice0: "slice s 0 n = take n s"
  by (simp add: slice_def min_def)

lemma length_slice: "length (slice s a b) \<le> b - a"
  by (simp add: slice_def)







text \<open>
  Claim C10. The focused text has at most 25000 characters, and at most 20000 when no
  section header occurs in the upper-cased text.
\<close>

theorem focused_length:
  "length (getWorkExperienceFocusedText toUpperCase fullText) \<le> 25000
   \<and> ((\<forall>m \<in> set startMarkers. \<forall>k. \<not> occursAt (toUpperCase fullText) m k)
        \<longrightarrow> length (getWorkExperienceFocusedText toUpperCase fullText) \<le> 20000)"
proof
  show "length (getWorkExperienceFocusedText toUpperCase fullText) \<le> 25000"
    unfolding getWorkExperienceFocusedText_def Let_def
    by (auto split: option.splits simp: slice0 intro: order_trans[OF length_slice])
next
  show "(\<forall>m \<in> set startMarkers. \<forall>k. \<not> occursAt (toUpperCase fullText) m k)
        \<longrightarrow> length (getWorkExperienceFocusedText toUpperCase fullText) \<le> 20000"
    using findStart_None[of startMarkers "toUpperCase fullText"]
    by (auto simp: getWorkExperienceFocusedText_def slice0)
qed

theorem focused_length_witness:
  "length (getWorkExperienceFocusedText upperAscii (lit ''abc'')) \<le> 20000"
proof -
  have h: "\<forall>m \<in> set startMarkers. \<forall>k. \<not> occursAt (upperAscii (lit ''abc'')) m k"
    by (simp add: startMarkers_def occursAt_def upperAscii_def charEv)
  with focused_length[of upperAscii "lit ''abc''"] show ?thesis by simp
qed

subsection \<open>The profile-only extractor\<close>




lemma limit_ok: "length s \<le> maxStringLength \<Longrightarrow> limit s = Inr s"
  by (simp add: limit_def)


















text \<open>
  The conversions raise as well: an object whose own \<open>toString\<close> is no function cannot
  be joined.
\<close>

lemma extractSkills_raises:
  "extractTechnicalExperience (JObj [(lit ''skills'', JArr [JObj [(lit ''toString'', JNum (lit ''5''))]])])
   = Inl (TypeError ''toString'')"
  by (simp add: extractTechnicalExperience_def extractContactInfo_def formatPhone_def
      cleanLocation_def extractSummary_def extractEducation_def extractSkills_def
      workExperienceOf_def limit_def maxStringLength_def valEv charEv)

text \<open>
  Claim C6. For every profile the function returns an object and raises nothing: the
  object of a success, with the document, when the extraction returns one, and the
  object of a failure, with the error, when the extraction raises.
\<close>

theorem parse_never_throws:
  "\<exists>r. parseFromProfilePage e p = Inr r
     \<and> ((success r \<and> (\<exists>d. data r = Some d) \<and> error r = None
          \<and> (\<exists>doc. extractTechnicalExperience p = Inr doc))
        \<or> (\<not> success r \<and> data r = None
            \<and> (\<exists>err. error r = Some err \<and> extractTechnicalExperience p = Inl err)))"
  by (cases "extractTechnicalExperience p") (simp_all add: parseFromProfilePage_def ebind_def)

theorem parse_never_throws_witness:
  "parseFromProfilePage \<lparr> startTime = 0, endTime = 1, isoNow = lit ''2026-01-01T00:00:00.000Z'' \<rparr>
     (JObj [(lit ''phone'', JNum (lit ''5''))])
   = Inr \<lparr> success = False, data = None, timing = None, source = None,
           error = Some (TypeError ''replace'') \<rparr>"
  using parse_never_throws[of "\<lparr> startTime = 0, endTime = 1, isoNow = lit ''2026-01-01T00:00:00.000Z'' \<rparr>"
      "JObj [(lit ''phone'', JNum (lit ''5''))]"]
  by (simp add: parseFromProfilePage_def extractTechnicalExperience_def extractContactInfo_def
      formatPhone_def limit_def maxStringLength_def valEv charEv)

subsection \<open>Replacement, phone numbers and dates\<close>


lemma replaceFrom_unfold:
  "replaceFrom r f p xs =
     (case ms r (p, xs, []) of
        (p', xs', c) # _ \<Rightarrow>
          f (matched p p') c @
            (if length xs' < length xs then replaceFrom r f p' xs'
             else (case xs of [] \<Rightarrow> [] | x # t \<Rightarrow> x # replaceFrom r f (x # p) t))
      | [] \<Rightarrow> (case xs of [] \<Rightarrow> [] | x # t \<Rightarrow> x # replaceFrom r f (x # p) t))"
  by simp

lemma replaceFrom_Cls:
  "replaceFrom (Cls P) (const r) p xs = concat (map (\<lambda>c. if P c then r else [c]) xs)"
proof (induction xs arbitrary: p)
  case Nil
  show ?case by (subst replaceFrom_unfold) simp
next
  case (Cons x t)
  show ?case
    by (subst replaceFrom_unfold) (simp add: Cons const_def del: replaceFrom.simps)
qed








lemma startsWith_plus: "startsWith s (lit ''+'') = (\<exists>ds. s = ch CHR ''+'' # ds)"
  by (cases s) (auto simp: lit_def ch_def)



lemma filter_no_plus: "ch CHR ''+'' \<notin> set s \<Longrightarrow> \<not> startsWith (filter (\<lambda>c. isDigit c \<or> c = ch CHR ''+'') s) (lit ''+'')"
proof
  assume a: "ch CHR ''+'' \<notin> set s"
    and "startsWith (filter (\<lambda>c. isDigit c \<or> c = ch CHR ''+'') s) (lit ''+'')"
  then obtain ds where "filter (\<lambda>c. isDigit c \<or> c = ch CHR ''+'') s = ch CHR ''+'' # ds"
    by (auto simp: startsWith_plus)
  then have "ch CHR ''+'' \<in> set (filter (\<lambda>c. isDigit c \<or> c = ch CHR ''+'') s)" by simp
  with a show False by simp
qed


lemma concat_map_Nil: "(\<forall>x \<in> set l. F x = []) \<Longrightarrow> concat (map F l) = []"
  by (induction l) auto

lemma drop_in_takeWhile:
  "k < length (takeWhile P xs) \<Longrightarrow> \<exists>y ys. drop k xs = y # ys \<and> P y"
proof (induction xs arbitrary: k)
  case Nil
  then show ?case by simp
next
  case (Cons x xs)
  then show ?case by (cases k) (auto split: if_splits)
qed

text \<open>A greedy run of a class, followed by a character outside the class: only the
  longest run can be followed.\<close>

lemma star_then_cls:
  assumes "\<And>x. Q x \<Longrightarrow> \<not> P x"
  shows "ms (Seq (Star True (Cls P)) (Seq (Cls Q) R)) (p, xs, c)
         = ms (Seq (Cls Q) R) (rev (takeWhile P xs) @ p, dropWhile P xs, c)"
proof -
  let ?n = "length (takeWhile P xs)"
  let ?g = "\<lambda>k. (rev (take k xs) @ p, drop k xs, c)"
  have shorter: "\<forall>k \<in> set (rev [0..<?n]). ms (Seq (Cls Q) R) (?g k) = []"
  proof
    fix k assume "k \<in> set (rev [0..<?n])"
    then have "k < ?n" by simp
    from drop_in_takeWhile[OF this] obtain y ys where d: "drop k xs = y # ys" "P y" by blast
    with assms have "\<not> Q y" by blast
    with d show "ms (Seq (Cls Q) R) (?g k) = []" by simp
  qed
  have "ms (Seq (Star True (Cls P)) (Seq (Cls Q) R)) (p, xs, c)
        = concat (map (ms (Seq (Cls Q) R)) (map ?g (rev [0..<Suc ?n])))"
    by (simp only: ms.simps star_cls_greedy)
  also have "\<dots> = ms (Seq (Cls Q) R) (?g ?n) @ concat (map (\<lambda>k. ms (Seq (Cls Q) R) (?g k)) (rev [0..<?n]))"
    by (simp add: o_def del: ms.simps)
  also have "\<dots> = ms (Seq (Cls Q) R) (?g ?n)"
    using concat_map_Nil[OF shorter] by (simp del: ms.simps)
  finally show ?thesis by (simp del: ms.simps)
qed

lemma enDash_not_space: "\<not> isSpace enDash"
  by (simp add: isSpace_def enDash_def)

lemma reDash_shape:
  "reDash = Seq (Star True (Cls isSpace)) (Seq (Cls (\<lambda>c. c = enDash)) (Star True (Cls isSpace)))"
  by (simp add: reDash_def ws_def)

lemma ms_cls_then_star:
  "ms (Seq (Cls Q) (Star True (Cls P))) (p, ys, c) =
     (case ys of
        [] \<Rightarrow> []
      | d # r \<Rightarrow>
          if Q d
          then map (\<lambda>k. (rev (take k r) @ d # p, drop k r, c)) (rev [0..<Suc (length (takeWhile P r))])
          else [])"
  by (cases ys) (simp_all add: star_cls_greedy del: star_ms.simps upt_Suc)

lemma ms_reDash:
  "ms reDash (p, xs, c) =
     (case dropWhile isSpace xs of
        [] \<Rightarrow> []
      | d # r \<Rightarrow>
          if d = enDash
          then map (\<lambda>k. (rev (take k r) @ d # rev (takeWhile isSpace xs) @ p, drop k r, c))
                   (rev [0..<Suc (length (takeWhile isSpace r))])
          else [])"
proof -
  have "ms reDash (p, xs, c)
        = ms (Seq (Cls (\<lambda>c. c = enDash)) (Star True (Cls isSpace)))
             (rev (takeWhile isSpace xs) @ p, dropWhile isSpace xs, c)"
    unfolding reDash_shape by (rule star_then_cls) (simp add: enDash_not_space)
  also have "\<dots> = (case dropWhile isSpace xs of
        [] \<Rightarrow> []
      | d # r \<Rightarrow>
          if d = enDash
          then map (\<lambda>k. (rev (take k r) @ d # rev (takeWhile isSpace xs) @ p, drop k r, c))
                   (rev [0..<Suc (length (takeWhile isSpace r))])
          else [])"
    by (simp only: ms_cls_then_star append_assoc)
  finally show ?thesis .
qed

lemma dropWhile_Cons_length:
  "dropWhile P xs = d # r \<Longrightarrow> length (dropWhile P r) < length xs"
proof -
  assume a: "dropWhile P xs = d # r"
  have "length (dropWhile P r) \<le> length r" by (rule length_dropWhile_le)
  moreover have "length (dropWhile P xs) \<le> length xs" by (rule length_dropWhile_le)
  ultimately show ?thesis using a by simp
qed

lemma replaceFrom_reDash_hit:
  assumes "dropWhile isSpace xs = enDash # r"
  shows "replaceFrom reDash f p xs =
           f (takeWhile isSpace xs @ enDash # takeWhile isSpace r) []
           @ replaceFrom reDash f (rev (takeWhile isSpace r) @ enDash # rev (takeWhile isSpace xs) @ p)
               (dropWhile isSpace r)"
proof -
  have m: "matched p (rev (takeWhile isSpace r) @ enDash # rev (takeWhile isSpace xs) @ p)
           = takeWhile isSpace xs @ enDash # takeWhile isSpace r"
    using matched_append[of p "rev (takeWhile isSpace r) @ enDash # rev (takeWhile isSpace xs)"]
    by simp
  from dropWhile_Cons_length[OF assms] have l: "length (dropWhile isSpace r) < length xs" .
  show ?thesis
    by (subst replaceFrom_unfold) (simp add: ms_reDash assms m l del: replaceFrom.simps)
qed

lemma replaceFrom_reDash_miss:
  assumes "\<And>r. dropWhile isSpace (x # t) \<noteq> enDash # r"
  shows "replaceFrom reDash f p (x # t) = x # replaceFrom reDash f (x # p) t"
proof -
  have "ms reDash (p, x # t, []) = []"
  proof (cases "dropWhile isSpace (x # t)")
    case Nil
    then show ?thesis by (simp only: ms_reDash list.case)
  next
    case (Cons d r)
    with assms have "d \<noteq> enDash" by blast
    then show ?thesis by (simp only: ms_reDash Cons list.case if_False)
  qed
  then show ?thesis by (subst replaceFrom_unfold) (simp del: replaceFrom.simps)
qed

lemma replaceFrom_reDash_Nil: "replaceFrom reDash f p [] = []"
  by (subst replaceFrom_unfold) (simp add: ms_reDash del: replaceFrom.simps)

lemma spaced_replace:
  "spaced (replaceFrom reDash (const [ch CHR '' '', enDash, ch CHR '' '']) p xs)"
proof (induction "length xs" arbitrary: xs p rule: less_induct)
  case less
  show ?case
  proof (cases xs)
    case Nil
    then show ?thesis by (simp add: replaceFrom_reDash_Nil spaced.nil del: replaceFrom.simps)
  next
    case (Cons x t)
    show ?thesis
    proof (cases "\<exists>r. dropWhile isSpace xs = enDash # r")
      case True
      then obtain r where r: "dropWhile isSpace xs = enDash # r" by blast
      from dropWhile_Cons_length[OF r] have "length (dropWhile isSpace r) < length xs" .
      from less[OF this] show ?thesis
        by (simp add: replaceFrom_reDash_hit[OF r] const_def spaced.dash del: replaceFrom.simps)
    next
      case False
      with Cons have miss: "\<And>r. dropWhile isSpace (x # t) \<noteq> enDash # r" by simp
      have "x \<noteq> enDash"
      proof
        assume "x = enDash"
        then have "dropWhile isSpace (x # t) = enDash # t" by (simp add: enDash_not_space)
        with miss show False by blast
      qed
      moreover have "spaced (replaceFrom reDash (const [ch CHR '' '', enDash, ch CHR '' '']) (x # p) t)"
        using less[of t "x # p"] Cons by simp
      ultimately show ?thesis
        unfolding Cons replaceFrom_reDash_miss[OF miss] by (rule spaced.chr)
    qed
  qed
qed

lemma spaced_dash:
  "spaced out \<Longrightarrow> out = a @ enDash # b \<Longrightarrow>
     (\<exists>a'. a = a' @ [ch CHR '' '']) \<and> (\<exists>b'. b = ch CHR '' '' # b')"
proof (induction arbitrary: a rule: spaced.induct)
  case nil
  then show ?case by simp
next
  case (chr c xs)
  show ?case
  proof (cases a)
    case Nil
    with chr show ?thesis by simp
  next
    case (Cons y a1)
    with chr.prems have "xs = a1 @ enDash # b" "y = c" by simp_all
    from chr.IH[OF this(1)] Cons show ?thesis by auto
  qed
next
  case (dash xs)
  have sp: "ch CHR '' '' \<noteq> enDash" by (simp add: ch_def enDash_def)
  show ?case
  proof (cases a)
    case Nil
    with dash.prems sp show ?thesis by simp
  next
    case c1: (Cons y1 a1)
    show ?thesis
    proof (cases a1)
      case Nil
      with c1 dash.prems show ?thesis by auto
    next
      case c2: (Cons y2 a2)
      show ?thesis
      proof (cases a2)
        case Nil
        with c1 c2 dash.prems sp show ?thesis by simp
      next
        case c3: (Cons y3 a3)
        with c1 c2 dash.prems have "xs = a3 @ enDash # b" by simp
        from dash.IH[OF this] c1 c2 c3 show ?thesis by auto
      qed
    qed
  qed
qed

lemma set_replaceFrom_reDash:
  "set (replaceFrom reDash (const t) p xs) \<subseteq> set xs \<union> set t"
proof (induction "length xs" arbitrary: xs p rule: less_induct)
  case less
  show ?case
  proof (cases xs)
    case Nil
    then show ?thesis by (simp add: replaceFrom_reDash_Nil del: replaceFrom.simps)
  next
    case (Cons x u)
    show ?thesis
    proof (cases "\<exists>r. dropWhile isSpace xs = enDash # r")
      case True
      then obtain r where r: "dropWhile isSpace xs = enDash # r" by blast
      from dropWhile_Cons_length[OF r] have "length (dropWhile isSpace r) < length xs" .
      from less[OF this] have ih: "set (replaceFrom reDash (const t)
          (rev (takeWhile isSpace r) @ enDash # rev (takeWhile isSpace xs) @ p) (dropWhile isSpace r))
          \<subseteq> set (dropWhile isSpace r) \<union> set t" .
      have "set (dropWhile isSpace r) \<subseteq> set r" by (auto dest: set_dropWhileD)
      moreover have "set r \<subseteq> set (dropWhile isSpace xs)" using r by auto
      moreover have "set (dropWhile isSpace xs) \<subseteq> set xs" by (auto dest: set_dropWhileD)
      ultimately show ?thesis using ih
        by (auto simp add: replaceFrom_reDash_hit[OF r] const_def simp del: replaceFrom.simps)
    next
      case False
      with Cons have miss: "\<And>r. dropWhile isSpace (x # u) \<noteq> enDash # r" by simp
      from less[of u "x # p"] Cons show ?thesis
        unfolding Cons replaceFrom_reDash_miss[OF miss] by auto
    qed
  qed
qed

lemma replaceFrom_prefix:
  "(\<And>a1 x a2. a = a1 @ x # a2 \<Longrightarrow> ms r (rev a1 @ p, x # a2 @ rest, []) = [])
   \<Longrightarrow> replaceFrom r f p (a @ rest) = a @ replaceFrom r f (rev a @ p) rest"
proof (induction a arbitrary: p)
  case Nil
  show ?case by simp
next
  case (Cons x a)
  from Cons.prems[of "[]" x a] have m: "ms r (p, x # a @ rest, []) = []" by simp
  have step: "replaceFrom r f p (x # a @ rest) = x # replaceFrom r f (x # p) (a @ rest)"
    by (subst replaceFrom_unfold) (simp add: m del: replaceFrom.simps)
  have "\<And>a1 y a2. a = a1 @ y # a2 \<Longrightarrow> ms r (rev a1 @ x # p, y # a2 @ rest, []) = []"
    using Cons.prems[of "x # _"] by simp
  from Cons.IH[of "x # p", OF this] step show ?case by (simp del: replaceFrom.simps)
qed

lemma replaceFrom_nomatch:
  assumes "\<And>a1 x a2. s = a1 @ x # a2 \<Longrightarrow> ms r (rev a1 @ p, x # a2, []) = []"
    and "ms r (rev s @ p, [], []) = []"
  shows "replaceFrom r f p s = s"
proof -
  have e: "replaceFrom r f (rev s @ p) [] = []"
    by (subst replaceFrom_unfold) (simp add: assms(2) del: replaceFrom.simps)
  from replaceFrom_prefix[of s r p "[]" f] assms(1) e show ?thesis by (simp del: replaceFrom.simps)
qed

lemma ms_reHyphen2:
  "ms reHyphen2 (p, xs, c) =
     (case xs of
        x # y # t \<Rightarrow> if x = ch CHR ''-'' \<and> y = ch CHR ''-'' then [(y # x # p, t, c)] else []
      | _ \<Rightarrow> [])"
  by (simp add: reHyphen2_def Chr_def split: list.splits)

lemma hyphen2_nohyphen:
  "ch CHR ''-'' \<notin> set u \<Longrightarrow> replaceFrom reHyphen2 f p u = u"
proof (rule replaceFrom_nomatch)
  fix a1 x a2 assume "ch CHR ''-'' \<notin> set u" "u = a1 @ x # a2"
  then have "x \<noteq> ch CHR ''-''" by auto
  then show "ms reHyphen2 (rev a1 @ p, x # a2, []) = []"
    by (simp add: ms_reHyphen2 split: list.splits)
next
  show "ms reHyphen2 (rev u @ p, [], []) = []" by (simp add: ms_reHyphen2)
qed

lemma map_no_hyphen: "x \<notin> set u \<Longrightarrow> map (\<lambda>c. if c = x then y else c) u = u"
  by (induction u) auto

lemma hyphen2_pass:
  assumes pre: "ch CHR ''-'' \<notin> set pre" and post: "ch CHR ''-'' \<notin> set post"
    and h: "h = [ch CHR ''-''] \<or> h = [ch CHR ''-'', ch CHR ''-''] \<or> h = [enDash]"
  shows "replaceAll reHyphen (const [enDash])
           (replaceAll reHyphen2 (const [enDash]) (pre @ h @ post)) = pre @ [enDash] @ post"
proof -
  let ?hy = "ch CHR ''-''"
  have ne: "enDash \<noteq> ?hy" by (simp add: enDash_def ch_def)
  have idm: "\<And>u. ?hy \<notin> set u \<Longrightarrow> map (\<lambda>c. if c = ?hy then enDash else c) u = u"
    by (rule map_no_hyphen)
  have pass2: "\<And>u. replaceAll reHyphen (const [enDash]) u = map (\<lambda>c. if c = ?hy then enDash else c) u"
  proof -
    fix u
    have "concat (map (\<lambda>c. if c = ?hy then [enDash] else [c]) u) = map (\<lambda>c. if c = ?hy then enDash else c) u"
      by (induction u) auto
    then show "replaceAll reHyphen (const [enDash]) u = map (\<lambda>c. if c = ?hy then enDash else c) u"
      by (simp add: replaceAll_def reHyphen_def Chr_def replaceFrom_Cls del: replaceFrom.simps)
  qed
  have pfx: "\<And>rest. replaceFrom reHyphen2 (const [enDash]) [] (pre @ rest)
                  = pre @ replaceFrom reHyphen2 (const [enDash]) (rev pre) rest"
  proof -
    fix rest
    have "\<And>a1 x a2. pre = a1 @ x # a2 \<Longrightarrow> ms reHyphen2 (rev a1 @ [], x # a2 @ rest, []) = []"
    proof -
      fix a1 x a2 assume "pre = a1 @ x # a2"
      with pre have "x \<noteq> ?hy" by auto
      then show "ms reHyphen2 (rev a1 @ [], x # a2 @ rest, []) = []"
        by (cases "a2 @ rest") (simp_all add: ms_reHyphen2)
    qed
    from replaceFrom_prefix[of pre reHyphen2 "[]" rest, OF this]
    show "replaceFrom reHyphen2 (const [enDash]) [] (pre @ rest)
          = pre @ replaceFrom reHyphen2 (const [enDash]) (rev pre) rest" by simp
  qed
  have hd_post: "\<And>y t. post = y # t \<Longrightarrow> y \<noteq> ?hy" using post by auto
  have one: "replaceFrom reHyphen2 (const [enDash]) (rev pre) (?hy # post) = ?hy # post"
  proof -
    have "ms reHyphen2 (rev pre, ?hy # post, []) = []"
      using hd_post by (cases post) (simp_all add: ms_reHyphen2)
    then show ?thesis
      by (subst replaceFrom_unfold)
         (simp add: hyphen2_nohyphen[OF post] del: replaceFrom.simps)
  qed
  have two: "replaceFrom reHyphen2 (const [enDash]) (rev pre) (?hy # ?hy # post) = enDash # post"
    by (subst replaceFrom_unfold)
       (simp add: ms_reHyphen2 hyphen2_nohyphen[OF post] const_def del: replaceFrom.simps)
  have three: "replaceFrom reHyphen2 (const [enDash]) (rev pre) (enDash # post) = enDash # post"
    using hyphen2_nohyphen[of "enDash # post"] post ne by simp
  from h show ?thesis
  proof (elim disjE)
    assume "h = [?hy]"
    then show ?thesis
      using pfx[of "?hy # post"] one idm[OF pre] idm[OF post]
      by (simp add: replaceAll_def[of reHyphen2] pass2 del: replaceFrom.simps)
  next
    assume "h = [?hy, ?hy]"
    then show ?thesis
      using pfx[of "?hy # ?hy # post"] two idm[OF pre] idm[OF post] ne
      by (simp add: replaceAll_def[of reHyphen2] pass2 del: replaceFrom.simps)
  next
    assume "h = [enDash]"
    then show ?thesis
      using pfx[of "enDash # post"] three idm[OF pre] idm[OF post] ne
      by (simp add: replaceAll_def[of reHyphen2] pass2 del: replaceFrom.simps)
  qed
qed

lemma dropWhile_first_nonspace:
  "u \<noteq> [] \<Longrightarrow> \<not> P (last u) \<Longrightarrow> \<exists>d r. dropWhile P (u @ v) = d # r \<and> d \<in> set u"
  by (induction u) (auto split: if_splits)

lemma dropWhile_in_set:
  "dropWhile P u = d # r \<Longrightarrow> d \<in> set u"
  by (metis list.set_intros(1) set_dropWhileD)

lemma dash_nodash:
  assumes "enDash \<notin> set u"
  shows "replaceFrom reDash f p u = u"
proof (rule replaceFrom_nomatch)
  fix a1 x a2 assume u: "u = a1 @ x # a2"
  show "ms reDash (rev a1 @ p, x # a2, []) = []"
  proof (cases "dropWhile isSpace (x # a2)")
    case Nil
    then show ?thesis by (simp only: ms_reDash list.case)
  next
    case (Cons d r)
    from dropWhile_in_set[OF Cons] u assms have "d \<noteq> enDash" by auto
    then show ?thesis by (simp only: ms_reDash Cons list.case if_False)
  qed
next
  show "ms reDash (rev u @ p, [], []) = []" by (simp add: ms_reDash)
qed

lemma takeWhile_run:
  "list_all P w \<Longrightarrow> v = [] \<or> \<not> P (hd v) \<Longrightarrow> takeWhile P (w @ v) = w \<and> dropWhile P (w @ v) = v"
proof (induction w)
  case Nil
  then show ?case by (cases v) auto
next
  case (Cons x w)
  then show ?case by auto
qed

lemma dash_pass:
  assumes a: "enDash \<notin> set a" "a = [] \<or> \<not> isSpace (last a)"
    and b: "enDash \<notin> set b" "b = [] \<or> \<not> isSpace (hd b)"
    and w: "list_all isSpace w1" "list_all isSpace w2"
  shows "replaceAll reDash (const [ch CHR '' '', enDash, ch CHR '' ''])
           (a @ w1 @ [enDash] @ w2 @ b) = a @ [ch CHR '' '', enDash, ch CHR '' ''] @ b"
proof -
  let ?rest = "w1 @ [enDash] @ w2 @ b"
  let ?f = "const [ch CHR '' '', enDash, ch CHR '' '']"
  have "\<And>a1 x a2. a = a1 @ x # a2 \<Longrightarrow> ms reDash (rev a1 @ [], x # a2 @ ?rest, []) = []"
  proof -
    fix a1 x a2 assume s: "a = a1 @ x # a2"
    with a(2) have "\<not> isSpace (last (x # a2))" by auto
    from dropWhile_first_nonspace[of "x # a2" isSpace ?rest, OF _ this]
    obtain d r where d: "dropWhile isSpace ((x # a2) @ ?rest) = d # r" "d \<in> set (x # a2)" by auto
    with s a(1) have "d \<noteq> enDash" by auto
    with d(1) show "ms reDash (rev a1 @ [], x # a2 @ ?rest, []) = []"
      by (simp only: ms_reDash append_Cons list.case if_False)
  qed
  from replaceFrom_prefix[of a reDash "[]" ?rest ?f, OF this]
  have pfx: "replaceFrom reDash ?f [] (a @ ?rest) = a @ replaceFrom reDash ?f (rev a) ?rest" by simp
  have run1: "takeWhile isSpace (w1 @ enDash # w2 @ b) = w1"
    "dropWhile isSpace (w1 @ enDash # w2 @ b) = enDash # w2 @ b"
    using takeWhile_run[of isSpace w1 "enDash # w2 @ b"] w(1) enDash_not_space by simp_all
  have run2: "takeWhile isSpace (w2 @ b) = w2" "dropWhile isSpace (w2 @ b) = b"
    using takeWhile_run[of isSpace w2 b] w(2) b(2) by simp_all
  have hit: "replaceFrom reDash ?f (rev a) (w1 @ enDash # w2 @ b)
             = [ch CHR '' '', enDash, ch CHR '' ''] @ b"
    using replaceFrom_reDash_hit[of "w1 @ enDash # w2 @ b" "w2 @ b" ?f "rev a"]
    by (simp add: run1 run2 dash_nodash[OF b(1)] const_def del: replaceFrom.simps)
  from pfx hit show ?thesis by (simp add: replaceAll_def del: replaceFrom.simps)
qed

lemma space_not_dash: "isSpace c \<Longrightarrow> c \<noteq> ch CHR ''-'' \<and> c \<noteq> enDash"
  by (auto simp: isSpace_def ch_def enDash_def)

text \<open>
  The replacements of \<open>normalizeDates\<close> do not look at the text before the position they
  are at, so each obeys an equation on the text alone.
\<close>

lemma hyphen2_Nil: "replaceFrom reHyphen2 f p [] = []"
  by (subst replaceFrom_unfold) (simp add: ms_reHyphen2 del: replaceFrom.simps)

lemma hyphen2_pair:
  "replaceFrom reHyphen2 f p (ch CHR ''-'' # ch CHR ''-'' # t)
   = f [ch CHR ''-'', ch CHR ''-''] [] @ replaceFrom reHyphen2 f (ch CHR ''-'' # ch CHR ''-'' # p) t"
  by (subst replaceFrom_unfold) (simp add: ms_reHyphen2 del: replaceFrom.simps)

lemma hyphen2_other:
  assumes "x \<noteq> ch CHR ''-'' \<or> t = [] \<or> hd t \<noteq> ch CHR ''-''"
  shows "replaceFrom reHyphen2 f p (x # t) = x # replaceFrom reHyphen2 f (x # p) t"
proof -
  have "ms reHyphen2 (p, x # t, []) = []"
    using assms by (cases t) (auto simp: ms_reHyphen2)
  then show ?thesis by (subst replaceFrom_unfold) (simp del: replaceFrom.simps)
qed

lemma hyphen2_indep: "replaceFrom reHyphen2 f p xs = replaceFrom reHyphen2 f q xs"
proof (induction "length xs" arbitrary: xs p q rule: less_induct)
  case less
  show ?case
  proof (cases xs)
    case Nil
    then show ?thesis by (simp only: hyphen2_Nil)
  next
    case (Cons x t)
    show ?thesis
    proof (cases "x \<noteq> ch CHR ''-'' \<or> t = [] \<or> hd t \<noteq> ch CHR ''-''")
      case True
      from less[of t "x # p" "x # q"] Cons
      have "replaceFrom reHyphen2 f (x # p) t = replaceFrom reHyphen2 f (x # q) t" by simp
      then show ?thesis unfolding Cons by (simp only: hyphen2_other[OF True])
    next
      case False
      then obtain t' where t: "x = ch CHR ''-''" "t = ch CHR ''-'' # t'" by (cases t) auto
      from less[of t' "ch CHR ''-'' # ch CHR ''-'' # p" "ch CHR ''-'' # ch CHR ''-'' # q"] Cons t
      have "replaceFrom reHyphen2 f (ch CHR ''-'' # ch CHR ''-'' # p) t'
            = replaceFrom reHyphen2 f (ch CHR ''-'' # ch CHR ''-'' # q) t'" by simp
      then show ?thesis unfolding Cons t by (simp only: hyphen2_pair)
    qed
  qed
qed

lemma dash_indep: "replaceFrom reDash f p xs = replaceFrom reDash f q xs"
proof (induction "length xs" arbitrary: xs p q rule: less_induct)
  case less
  show ?case
  proof (cases xs)
    case Nil
    then show ?thesis by (simp only: replaceFrom_reDash_Nil)
  next
    case (Cons x t)
    show ?thesis
    proof (cases "\<exists>r. dropWhile isSpace xs = enDash # r")
      case True
      then obtain r where r: "dropWhile isSpace xs = enDash # r" by blast
      from dropWhile_Cons_length[OF r] have "length (dropWhile isSpace r) < length xs" .
      from less[OF this]
      have "replaceFrom reDash f (rev (takeWhile isSpace r) @ enDash # rev (takeWhile isSpace xs) @ p)
              (dropWhile isSpace r)
            = replaceFrom reDash f (rev (takeWhile isSpace r) @ enDash # rev (takeWhile isSpace xs) @ q)
              (dropWhile isSpace r)" .
      then show ?thesis by (simp only: replaceFrom_reDash_hit[OF r])
    next
      case False
      then have m: "\<And>r. dropWhile isSpace (x # t) \<noteq> enDash # r" using Cons by blast
      from less[of t "x # p" "x # q"] Cons
      have "replaceFrom reDash f (x # p) t = replaceFrom reDash f (x # q) t" by simp
      then show ?thesis unfolding Cons by (simp only: replaceFrom_reDash_miss[OF m])
    qed
  qed
qed

lemma hyphen_map:
  "replaceAll reHyphen (const [enDash]) u = map (\<lambda>c. if c = ch CHR ''-'' then enDash else c) u"
proof -
  have "concat (map (\<lambda>c. if c = ch CHR ''-'' then [enDash] else [c]) u)
        = map (\<lambda>c. if c = ch CHR ''-'' then enDash else c) u"
    by (induction u) auto
  then show ?thesis
    by (simp add: replaceAll_def reHyphen_def Chr_def replaceFrom_Cls del: replaceFrom.simps)
qed

lemma hyphen2_prefix:
  assumes "ch CHR ''-'' \<notin> set pre"
  shows "replaceAll reHyphen2 f (pre @ rest) = pre @ replaceAll reHyphen2 f rest"
  using assms
proof (induction pre)
  case Nil
  show ?case by simp
next
  case (Cons x pre)
  then have x: "x \<noteq> ch CHR ''-'' \<or> pre @ rest = [] \<or> hd (pre @ rest) \<noteq> ch CHR ''-''" by simp
  from Cons have ih: "replaceAll reHyphen2 f (pre @ rest) = pre @ replaceAll reHyphen2 f rest" by simp
  have "replaceAll reHyphen2 f ((x # pre) @ rest) = x # replaceFrom reHyphen2 f [x] (pre @ rest)"
    unfolding replaceAll_def using hyphen2_other[OF x, of f "[]"] by simp
  also have "replaceFrom reHyphen2 f [x] (pre @ rest) = replaceAll reHyphen2 f (pre @ rest)"
    unfolding replaceAll_def by (rule hyphen2_indep)
  finally show ?case using ih by simp
qed

lemma hyphen2_separator:
  assumes h: "h = [ch CHR ''-''] \<or> h = [ch CHR ''-'', ch CHR ''-''] \<or> h = [enDash]"
    and post: "post = [] \<or> hd post \<noteq> ch CHR ''-''"
  shows "map (\<lambda>c. if c = ch CHR ''-'' then enDash else c)
           (replaceAll reHyphen2 (const [enDash]) (h @ post))
         = enDash # map (\<lambda>c. if c = ch CHR ''-'' then enDash else c)
                      (replaceAll reHyphen2 (const [enDash]) post)"
proof -
  let ?hy = "ch CHR ''-''"
  let ?G = "const [enDash]"
  have ne: "enDash \<noteq> ?hy" by (simp add: enDash_def ch_def)
  have ind: "\<And>p. replaceFrom reHyphen2 ?G p post = replaceAll reHyphen2 ?G post"
    unfolding replaceAll_def by (rule hyphen2_indep)
  from h show ?thesis
  proof (elim disjE)
    assume a: "h = [?hy]"
    from post have "?hy \<noteq> ?hy \<or> post = [] \<or> hd post \<noteq> ?hy" by simp
    from hyphen2_other[OF this, of ?G "[]"] a show ?thesis
      by (simp add: replaceAll_def[of reHyphen2 ?G "?hy # post"] ind del: replaceFrom.simps)
  next
    assume a: "h = [?hy, ?hy]"
    from hyphen2_pair[of ?G "[]" post] a ne show ?thesis
      by (simp add: replaceAll_def[of reHyphen2 ?G "?hy # ?hy # post"] ind const_def
          del: replaceFrom.simps)
  next
    assume a: "h = [enDash]"
    from ne have "enDash \<noteq> ?hy \<or> post = [] \<or> hd post \<noteq> ?hy" by simp
    from hyphen2_other[OF this, of ?G "[]"] a ne show ?thesis
      by (simp add: replaceAll_def[of reHyphen2 ?G "enDash # post"] ind del: replaceFrom.simps)
  qed
qed

lemma dash_prefix:
  assumes "enDash \<notin> set a" and "a = [] \<or> \<not> isSpace (last a)"
  shows "replaceAll reDash f (a @ rest) = a @ replaceAll reDash f rest"
proof -
  have "\<And>a1 x a2. a = a1 @ x # a2 \<Longrightarrow> ms reDash (rev a1 @ [], x # a2 @ rest, []) = []"
  proof -
    fix a1 x a2 assume s: "a = a1 @ x # a2"
    with assms(2) have "\<not> isSpace (last (x # a2))" by auto
    from dropWhile_first_nonspace[of "x # a2" isSpace rest, OF _ this]
    obtain d r where d: "dropWhile isSpace ((x # a2) @ rest) = d # r" "d \<in> set (x # a2)" by auto
    with s assms(1) have "d \<noteq> enDash" by auto
    with d(1) show "ms reDash (rev a1 @ [], x # a2 @ rest, []) = []"
      by (simp only: ms_reDash append_Cons list.case if_False)
  qed
  from replaceFrom_prefix[of a reDash "[]" rest f, OF this]
  have "replaceFrom reDash f [] (a @ rest) = a @ replaceFrom reDash f (rev a) rest" by simp
  also have "replaceFrom reDash f (rev a) rest = replaceFrom reDash f [] rest" by (rule dash_indep)
  finally show ?thesis by (simp only: replaceAll_def)
qed

lemma dash_separator:
  assumes w: "list_all isSpace w1" "list_all isSpace w2"
    and b: "b = [] \<or> \<not> isSpace (hd b)"
  shows "replaceAll reDash (const t) (w1 @ enDash # w2 @ b) = t @ replaceAll reDash (const t) b"
proof -
  have run1: "takeWhile isSpace (w1 @ enDash # w2 @ b) = w1"
    "dropWhile isSpace (w1 @ enDash # w2 @ b) = enDash # w2 @ b"
    using takeWhile_run[of isSpace w1 "enDash # w2 @ b"] w(1) enDash_not_space by simp_all
  have run2: "takeWhile isSpace (w2 @ b) = w2" "dropWhile isSpace (w2 @ b) = b"
    using takeWhile_run[of isSpace w2 b] w(2) b by simp_all
  have "replaceFrom reDash (const t) [] (w1 @ enDash # w2 @ b)
        = t @ replaceFrom reDash (const t) (rev w2 @ enDash # rev w1 @ []) b"
    using replaceFrom_reDash_hit[of "w1 @ enDash # w2 @ b" "w2 @ b" "const t" "[]"]
    by (simp only: run1 run2 const_def)
  also have "replaceFrom reDash (const t) (rev w2 @ enDash # rev w1 @ []) b
             = replaceFrom reDash (const t) [] b" by (rule dash_indep)
  finally show ?thesis by (simp only: replaceAll_def)
qed

lemma dashForm_Nil: "dashForm [] = []"
  by (simp add: dashForm_def hyphen_map replaceAll_def[of reHyphen2] replaceAll_def[of reDash]
      hyphen2_Nil replaceFrom_reDash_Nil del: replaceFrom.simps)

lemma dashForm_clean:
  assumes "ch CHR ''-'' \<notin> set s" and "enDash \<notin> set s"
  shows "dashForm s = s"
  using hyphen2_nohyphen[OF assms(1), of "const [enDash]" "[]"] map_no_hyphen[OF assms(1), of enDash]
    dash_nodash[OF assms(2), of "const [ch CHR '' '', enDash, ch CHR '' '']" "[]"]
  by (simp add: dashForm_def hyphen_map replaceAll_def[of reHyphen2] replaceAll_def[of reDash]
      del: replaceFrom.simps)

lemma dashForm_step:
  assumes h: "h = [ch CHR ''-''] \<or> h = [ch CHR ''-'', ch CHR ''-''] \<or> h = [enDash]"
    and a: "ch CHR ''-'' \<notin> set a" "enDash \<notin> set a" "a = [] \<or> \<not> isSpace (last a)"
    and w: "list_all isSpace w1" "list_all isSpace w2"
    and b: "b = [] \<or> (\<not> isSpace (hd b) \<and> hd b \<noteq> ch CHR ''-'' \<and> hd b \<noteq> enDash)"
  shows "dashForm (a @ w1 @ h @ w2 @ b) = a @ [ch CHR '' '', enDash, ch CHR '' ''] @ dashForm b"
proof -
  let ?hy = "ch CHR ''-''"
  let ?G = "const [enDash]"
  let ?m = "map (\<lambda>c. if c = ?hy then enDash else c)"
  let ?b' = "?m (replaceAll reHyphen2 ?G b)"
  from w have w1: "?hy \<notin> set w1" and w2: "?hy \<notin> set w2"
    using space_not_dash by (auto simp: list_all_iff)
  from a(1) w1 have pre: "?hy \<notin> set (a @ w1)" by simp
  have post: "w2 @ b = [] \<or> hd (w2 @ b) \<noteq> ?hy"
  proof (cases w2)
    case Nil
    with b show ?thesis by auto
  next
    case (Cons y ys)
    with w2 show ?thesis by auto
  qed
  have "?m (replaceAll reHyphen2 ?G (a @ w1 @ h @ w2 @ b))
        = ?m ((a @ w1) @ replaceAll reHyphen2 ?G (h @ w2 @ b))"
    using hyphen2_prefix[OF pre, of ?G "h @ w2 @ b"] by simp
  also have "\<dots> = (a @ w1) @ ?m (replaceAll reHyphen2 ?G (h @ w2 @ b))"
    using map_no_hyphen[OF pre, of enDash] by simp
  also have "?m (replaceAll reHyphen2 ?G (h @ w2 @ b)) = enDash # ?m (replaceAll reHyphen2 ?G (w2 @ b))"
    by (rule hyphen2_separator[OF h post])
  also have "?m (replaceAll reHyphen2 ?G (w2 @ b)) = w2 @ ?b'"
    using hyphen2_prefix[OF w2, of ?G b] map_no_hyphen[OF w2, of enDash] by simp
  finally have hy: "?m (replaceAll reHyphen2 ?G (a @ w1 @ h @ w2 @ b)) = a @ w1 @ enDash # w2 @ ?b'"
    by simp
  have b': "?b' = [] \<or> \<not> isSpace (hd ?b')"
  proof (cases b)
    case Nil
    then show ?thesis by (simp add: replaceAll_def hyphen2_Nil del: replaceFrom.simps)
  next
    case (Cons x t)
    with b have x: "\<not> isSpace x" "x \<noteq> ?hy" by simp_all
    then have "x \<noteq> ?hy \<or> t = [] \<or> hd t \<noteq> ?hy" by simp
    from hyphen2_other[OF this, of ?G "[]"] x Cons show ?thesis
      by (simp add: replaceAll_def del: replaceFrom.simps)
  qed
  have "dashForm (a @ w1 @ h @ w2 @ b)
        = replaceAll reDash (const [ch CHR '' '', enDash, ch CHR '' '']) (a @ w1 @ enDash # w2 @ ?b')"
    unfolding dashForm_def hyphen_map hy ..
  also have "\<dots> = a @ replaceAll reDash (const [ch CHR '' '', enDash, ch CHR '' '']) (w1 @ enDash # w2 @ ?b')"
    by (rule dash_prefix[OF a(2,3)])
  also have "replaceAll reDash (const [ch CHR '' '', enDash, ch CHR '' '']) (w1 @ enDash # w2 @ ?b')
             = [ch CHR '' '', enDash, ch CHR '' '']
               @ replaceAll reDash (const [ch CHR '' '', enDash, ch CHR '' '']) ?b'"
    by (rule dash_separator[OF w b'])
  finally show ?thesis unfolding dashForm_def hyphen_map by simp
qed

lemma dashForm_no_hyphen: "ch CHR ''-'' \<notin> set (dashForm s)"
proof -
  let ?t1 = "replaceAll reHyphen2 (const [enDash]) s"
  let ?t2 = "replaceAll reHyphen (const [enDash]) ?t1"
  have ne: "enDash \<noteq> ch CHR ''-''" "ch CHR '' '' \<noteq> ch CHR ''-''" by (simp_all add: enDash_def ch_def)
  have "?t2 = map (\<lambda>c. if c = ch CHR ''-'' then enDash else c) ?t1" by (rule hyphen_map)
  then have t2: "ch CHR ''-'' \<notin> set ?t2" using ne by auto
  from set_replaceFrom_reDash[of "[ch CHR '' '', enDash, ch CHR '' '']" "[]" ?t2] t2 ne
  have "ch CHR ''-'' \<notin> set (replaceAll reDash (const [ch CHR '' '', enDash, ch CHR '' '']) ?t2)"
    by (auto simp: replaceAll_def[of reDash])
  then show ?thesis unfolding dashForm_def .
qed

lemma dashForm_spaced: "spaced (dashForm s)"
  by (simp add: dashForm_def replaceAll_def[of reDash] spaced_replace del: replaceFrom.simps)

lemma normalizeDates_str:
  assumes "length (dashForm s) \<le> maxStringLength"
  shows "normalizeDates (JStr s) = Inr (dashForm s)"
proof (cases "s = []")
  case True
  then show ?thesis by (simp add: normalizeDates_def dashForm_Nil)
next
  case False
  from limit_ok[OF assms] False show ?thesis
    by (simp add: normalizeDates_def ebind_def dashForm_def)
qed

lemma normalizeDates_result: "normalizeDates v = Inr r \<Longrightarrow> \<exists>s. r = dashForm s"
proof (cases "truthy v")
  case False
  assume "normalizeDates v = Inr r"
  with False have "r = dashForm []" by (simp add: normalizeDates_def dashForm_Nil)
  then show ?thesis by blast
next
  case True
  assume "normalizeDates v = Inr r"
  with True show ?thesis
    by (cases "toStr v") (auto simp: normalizeDates_def ebind_def dashForm_def limit_def split: if_splits)
qed

lemma normalizeDates_str_result: "normalizeDates (JStr b) = Inr r \<Longrightarrow> r = dashForm b"
proof (cases "b = []")
  case True
  assume "normalizeDates (JStr b) = Inr r"
  with True show ?thesis by (simp add: normalizeDates_def dashForm_Nil)
next
  case False
  assume "normalizeDates (JStr b) = Inr r"
  with False show ?thesis
    by (auto simp: normalizeDates_def ebind_def dashForm_def limit_def split: if_splits)
qed

text \<open>
  Claim C5, as the code has it. The hyphen variants \<open>normalizeDates\<close> converts are the
  hyphen, the double hyphen and the en dash; no other dash is touched. A result
  contains no hyphen, and every en dash in it stands between two spaces. A text free of
  hyphens and en dashes is returned as it is. When such a text \<open>a\<close>, not ending in white
  space, is followed by one of the three variants, with any white space around it, and
  then by a text \<open>b\<close> that does not start with white space, a hyphen or an en dash, the
  result is \<open>a\<close>, an en dash between single spaces, and the result for \<open>b\<close>. All this
  for strings the engine can hold. So \<open>2019-2021\<close> and \<open>2019--2021\<close> both become
  \<open>2019\<close>, space, en dash, space, \<open>2021\<close>, and each range of
  \<open>2019-2020, 2021-2022\<close> is converted.
\<close>

theorem normalizeDates_amended:
  "(\<forall>r. normalizeDates v = Inr r \<longrightarrow>
      ch CHR ''-'' \<notin> set r
      \<and> (\<forall>a b. r = a @ enDash # b
           \<longrightarrow> (\<exists>a'. a = a' @ [ch CHR '' '']) \<and> (\<exists>b'. b = ch CHR '' '' # b')))
   \<and> (ch CHR ''-'' \<notin> set s \<and> enDash \<notin> set s \<and> length s \<le> maxStringLength
        \<longrightarrow> normalizeDates (JStr s) = Inr s)
   \<and> (\<forall>a w1 h w2 b r.
        (h = [ch CHR ''-''] \<or> h = [ch CHR ''-'', ch CHR ''-''] \<or> h = [enDash])
        \<and> ch CHR ''-'' \<notin> set a \<and> enDash \<notin> set a \<and> (a = [] \<or> \<not> isSpace (last a))
        \<and> list_all isSpace w1 \<and> list_all isSpace w2
        \<and> (b = [] \<or> (\<not> isSpace (hd b) \<and> hd b \<noteq> ch CHR ''-'' \<and> hd b \<noteq> enDash))
        \<and> normalizeDates (JStr b) = Inr r
        \<and> length (a @ [ch CHR '' '', enDash, ch CHR '' ''] @ r) \<le> maxStringLength
        \<longrightarrow> normalizeDates (JStr (a @ w1 @ h @ w2 @ b))
            = Inr (a @ [ch CHR '' '', enDash, ch CHR '' ''] @ r))
   \<and> normalizeDates (JStr (lit ''2019-2021''))
       = Inr (lit ''2019'' @ [ch CHR '' '', enDash, ch CHR '' ''] @ lit ''2021'')
   \<and> normalizeDates (JStr (lit ''2019--2021''))
       = Inr (lit ''2019'' @ [ch CHR '' '', enDash, ch CHR '' ''] @ lit ''2021'')
   \<and> normalizeDates (JStr (lit ''2019-2020, 2021-2022''))
       = Inr (lit ''2019'' @ [ch CHR '' '', enDash, ch CHR '' ''] @ lit ''2020, 2021''
              @ [ch CHR '' '', enDash, ch CHR '' ''] @ lit ''2022'')"
proof (intro conjI allI impI)
  fix r assume "normalizeDates v = Inr r"
  from normalizeDates_result[OF this] obtain t where t: "r = dashForm t" by blast
  show "ch CHR ''-'' \<notin> set r" unfolding t by (rule dashForm_no_hyphen)
  fix a b assume "r = a @ enDash # b"
  from spaced_dash[OF dashForm_spaced[of t, folded t] this]
  show "\<exists>a'. a = a' @ [ch CHR '' '']" and "\<exists>b'. b = ch CHR '' '' # b'" by simp_all
next
  assume c: "ch CHR ''-'' \<notin> set s \<and> enDash \<notin> set s \<and> length s \<le> maxStringLength"
  then have d: "dashForm s = s" by (simp add: dashForm_clean)
  with c have "length (dashForm s) \<le> maxStringLength" by simp
  from normalizeDates_str[OF this] d show "normalizeDates (JStr s) = Inr s" by simp
next
  fix a w1 h w2 b r
  assume c: "(h = [ch CHR ''-''] \<or> h = [ch CHR ''-'', ch CHR ''-''] \<or> h = [enDash])
        \<and> ch CHR ''-'' \<notin> set a \<and> enDash \<notin> set a \<and> (a = [] \<or> \<not> isSpace (last a))
        \<and> list_all isSpace w1 \<and> list_all isSpace w2
        \<and> (b = [] \<or> (\<not> isSpace (hd b) \<and> hd b \<noteq> ch CHR ''-'' \<and> hd b \<noteq> enDash))
        \<and> normalizeDates (JStr b) = Inr r
        \<and> length (a @ [ch CHR '' '', enDash, ch CHR '' ''] @ r) \<le> maxStringLength"
  then have r: "r = dashForm b" using normalizeDates_str_result by blast
  from c dashForm_step[of h a w1 w2 b]
  have e: "dashForm (a @ w1 @ h @ w2 @ b) = a @ [ch CHR '' '', enDash, ch CHR '' ''] @ dashForm b"
    by blast
  with c r have "length (dashForm (a @ w1 @ h @ w2 @ b)) \<le> maxStringLength" by simp
  from normalizeDates_str[OF this] e r
  show "normalizeDates (JStr (a @ w1 @ h @ w2 @ b))
            = Inr (a @ [ch CHR '' '', enDash, ch CHR '' ''] @ r)"
    by simp
next
  show "normalizeDates (JStr (lit ''2019-2021''))
       = Inr (lit ''2019'' @ [ch CHR '' '', enDash, ch CHR '' ''] @ lit ''2021'')"
    by (simp add: normalizeDates_def reHyphen2_def reHyphen_def reDash_def ebind_def
        maxStringLength_def limit_def charEv reEv)
next
  show "normalizeDates (JStr (lit ''2019--2021''))
       = Inr (lit ''2019'' @ [ch CHR '' '', enDash, ch CHR '' ''] @ lit ''2021'')"
    by (simp add: normalizeDates_def reHyphen2_def reHyphen_def reDash_def ebind_def
        maxStringLength_def limit_def charEv reEv)
next
  show "normalizeDates (JStr (lit ''2019-2020, 2021-2022''))
       = Inr (lit ''2019'' @ [ch CHR '' '', enDash, ch CHR '' ''] @ lit ''2020, 2021''
              @ [ch CHR '' '', enDash, ch CHR '' ''] @ lit ''2022'')"
    by (simp add: normalizeDates_def reHyphen2_def reHyphen_def reDash_def ebind_def
        maxStringLength_def limit_def charEv reEv)
qed

theorem normalizeDates_amended_witness:
  "normalizeDates (JStr (lit ''Jan 2019 -  2021''))
   = Inr (lit ''Jan 2019'' @ [ch CHR '' '', enDash, ch CHR '' ''] @ lit ''2021'')"
  using normalizeDates_amended[of JNull "lit ''2021''", THEN conjunct2, THEN conjunct2,
      THEN conjunct1, rule_format,
      of "[ch CHR ''-'']" "lit ''Jan 2019''" "lit '' ''" "lit ''  ''" "lit ''2021''" "lit ''2021''"]
    normalizeDates_amended[of JNull "lit ''2021''", THEN conjunct2, THEN conjunct1]
  by (simp add: maxStringLength_def charEv)

text \<open>
  The claim as the specification words it fails on a hyphen variant the function does not
  know: an em dash stays as it is. It fails too where the separators touch: of three
  hyphens the first two become one en dash and the third another, each with its spaces.
\<close>

theorem normalizeDates_counterexample:
  "normalizeDates (JStr (lit ''2019'' @ [8212] @ lit ''2021'')) = Inr (lit ''2019'' @ [8212] @ lit ''2021'')
   \<and> normalizeDates (JStr (lit ''2019---2021''))
       = Inr (lit ''2019'' @ [ch CHR '' '', enDash, ch CHR '' '', ch CHR '' '', enDash, ch CHR '' '']
              @ lit ''2021'')"
  by (simp add: normalizeDates_def reHyphen2_def reHyphen_def reDash_def ebind_def
      maxStringLength_def limit_def charEv reEv)




subsection \<open>The PDF text extractor\<close>

text \<open>
  From here on the recursive functions of the matcher are unfolded by hand, one step at
  a time.
\<close>

declare search.simps [simp del] execFrom.simps [simp del] replaceFrom.simps [simp del]
  splitFrom.simps [simp del] star_ms.simps [simp del]

lemma search_Cons:
  "search r p (x # xs) =
     (case ms r (p, x # xs, []) of st # u \<Rightarrow> Some (p, st) | [] \<Rightarrow> search r (x # p) xs)"
  by (subst search.simps) (simp split: list.splits)





lemma ext_length: "ext n s s' \<Longrightarrow> length (fst (snd s')) + n \<le> length (fst (snd s))"
  by (auto simp: ext_def)




text \<open>What \<open>search\<close> finds.\<close>

lemma search_skip:
  "(\<And>a1 a2. a = a1 @ a2 \<Longrightarrow> a2 \<noteq> [] \<Longrightarrow> ms r (rev a1 @ p, a2 @ b, []) = [])
   \<Longrightarrow> search r p (a @ b) = search r (rev a @ p) b"
proof (induction a arbitrary: p)
  case Nil
  show ?case by simp
next
  case (Cons x a)
  from Cons.prems[of "[]" "x # a"] have m: "ms r (p, x # a @ b, []) = []" by simp
  have "\<And>a1 a2. a = a1 @ a2 \<Longrightarrow> a2 \<noteq> [] \<Longrightarrow> ms r (rev a1 @ x # p, a2 @ b, []) = []"
    using Cons.prems[of "x # _"] by simp
  from Cons.IH[of "x # p", OF this] m show ?case
    by (simp add: search_Cons)
qed









lemma ms_two_chars:
  "ms (Seq (Cls A) (Cls B)) (p, xs, c) =
     (case xs of u # v # t \<Rightarrow> if A u \<and> B v then [(v # u # p, t, c)] else [] | _ \<Rightarrow> [])"
  by (simp split: list.splits)

lemma StrS_two: "StrS [a, b] = Seq (Cls (\<lambda>c. c = ch a)) (Cls (\<lambda>c. c = ch b))"
  by (simp add: StrS_def lit_def ch_def)












lemma reTextBlock_shape:
  "reTextBlock = Seq (Seq (Cls (\<lambda>c. c = ch CHR ''B'')) (Cls (\<lambda>c. c = ch CHR ''T'')))
                   (Seq ws (Seq (Grp 1 (Star False anyChar)) tailET))"
  by (simp add: reTextBlock_def StrS_two tailET_def ws_def)


lemma ms_reTextBlock_short:
  assumes "length xs < 2"
  shows "ms reTextBlock (q, xs, c) = []"
proof -
  from assms have "xs = [] \<or> (\<exists>x. xs = [x])"
    by (cases xs; cases "tl xs") auto
  then show ?thesis
    unfolding reTextBlock_shape
    by (subst ms.simps(3), subst ms_two_chars) auto
qed






























































end
